theory Spec2Isabelle
  imports Complex_Main "HOL-Library.Sublist"
begin

section \<open>Python values and errors\<close>

text \<open>
  The scan payload is whatever \<^verbatim>\<open>json.loads\<close> returns: \<^verbatim>\<open>None\<close>, a bool, a number,
  a string, a list or a dict. A dict is an association list in insertion order; a key is
  looked up with \<open>map_of\<close>. Numbers are integers here: no field the code inspects is
  fractional. Strings are lists of bytes, so the case-insensitive operations below are
  the ASCII ones.
\<close>

datatype json =
    JNull
  | JBool bool
  | JNum int
  | JStr string
  | JArr "json list"
  | JObj "(string \<times> json) list"

text \<open>
  The exceptions the four modules can raise or let through. \<^verbatim>\<open>JSONDecodeError\<close> and
  \<^verbatim>\<open>UnicodeDecodeError\<close> are subclasses of \<^verbatim>\<open>ValueError\<close>; \<^verbatim>\<open>FileNotFoundError\<close> and
  \<^verbatim>\<open>SSLError\<close> are subclasses of \<^verbatim>\<open>OSError\<close>, which is also \<^verbatim>\<open>IOError\<close>.
\<close>

datatype py_error =
    FileNotFoundError
  | AttributeError
  | TypeError
  | ValueError
  | JSONDecodeError
  | UnicodeDecodeError
  | RecursionError
  | TimeoutError int
  | RequestException
  | SSLError
  | OSError
  | KeyboardInterrupt

text \<open>Python truthiness, as used by \<^verbatim>\<open>if not x\<close>, \<^verbatim>\<open>x or y\<close> and \<^verbatim>\<open>if v := ...\<close>.\<close>

fun truthy :: "json \<Rightarrow> bool" where
  "truthy JNull = False"
| "truthy (JBool b) = b"
| "truthy (JNum n) = (n \<noteq> 0)"
| "truthy (JStr s) = (s \<noteq> [])"
| "truthy (JArr xs) = (xs \<noteq> [])"
| "truthy (JObj kvs) = (kvs \<noteq> [])"

text \<open>\<^verbatim>\<open>x.get(key, default)\<close>: only a dict has the method.\<close>

fun py_get :: "json \<Rightarrow> string \<Rightarrow> json \<Rightarrow> py_error + json" where
  "py_get (JObj kvs) key dflt = Inr (case map_of kvs key of None \<Rightarrow> dflt | Some v \<Rightarrow> v)"
| "py_get _ key dflt = Inl AttributeError"

text \<open>The keys of a dict in insertion order, each once.\<close>

definition dict_keys :: "(string \<times> json) list \<Rightarrow> string list" where
  "dict_keys kvs = rev (remdups (rev (map fst kvs)))"

text \<open>
  \<^verbatim>\<open>for x in v\<close>: a list gives its elements, a string its characters, a dict its keys;
  anything else is not iterable.
\<close>

fun py_iter :: "json \<Rightarrow> py_error + json list" where
  "py_iter (JArr xs) = Inr xs"
| "py_iter (JStr s) = Inr (map (\<lambda>c. JStr [c]) s)"
| "py_iter (JObj kvs) = Inr (map JStr (dict_keys kvs))"
| "py_iter _ = Inl TypeError"

fun is_dict :: "json \<Rightarrow> bool" where
  "is_dict (JObj kvs) = True"
| "is_dict _ = False"

section \<open>resultParser.py\<close>

definition ERROR_PREFIX :: string where
  "ERROR_PREFIX = ''::error::''"

definition JSON_PREAMBLE :: string where
  "JSON_PREAMBLE = ''The scan result is successfully retrieved. JSON output is as follows:''"

definition FIELD_MAPPING :: "(string \<times> string) list" where
  "FIELD_MAPPING =
     [(''filePath'', ''File Name''),
      (''checkId'', ''Qualys CID''),
      (''checkName'', ''Control Name''),
      (''criticality'', ''Criticality''),
      (''remediation'', ''Remediation'')]"

text \<open>\<^verbatim>\<open>content.find(sub)\<close>: the first index where \<open>sub\<close> starts, \<open>None\<close> for \<open>-1\<close>.\<close>

fun str_find :: "string \<Rightarrow> string \<Rightarrow> nat option" where
  "str_find [] sub = (if sub = [] then Some 0 else None)"
| "str_find (c # cs) sub =
     (if prefix sub (c # cs) then Some 0 else map_option Suc (str_find cs sub))"

text \<open>
  What opening and reading the file gives: its content, or one of the exceptions
  \<^verbatim>\<open>FileNotFoundError\<close>, another \<^verbatim>\<open>IOError\<close>, or \<^verbatim>\<open>UnicodeDecodeError\<close> for a file that
  is not UTF-8. What \<^verbatim>\<open>json.loads\<close> gives: a value, or one of \<^verbatim>\<open>JSONDecodeError\<close>,
  \<^verbatim>\<open>ValueError\<close> (a number too long to convert) and \<^verbatim>\<open>RecursionError\<close>.
\<close>

datatype read_result =
    Content string
  | File_not_found
  | Io_error
  | Not_utf8

datatype parse_result =
    Parsed json
  | Json_decode_error
  | Value_error
  | Recursion_error

text \<open>
  \<open>load_scan_data\<close> returns \<^verbatim>\<open>None\<close> after \<^verbatim>\<open>FileNotFoundError\<close>, after any other
  \<^verbatim>\<open>IOError\<close> and after \<^verbatim>\<open>JSONDecodeError\<close>; the other exceptions leave it.
\<close>

definition load_scan_data ::
  "(string \<Rightarrow> parse_result) \<Rightarrow> read_result \<Rightarrow> py_error + json option" where
  "load_scan_data json_loads file =
     (case file of
        File_not_found \<Rightarrow> Inr None
      | Io_error \<Rightarrow> Inr None
      | Not_utf8 \<Rightarrow> Inl UnicodeDecodeError
      | Content content \<Rightarrow>
          (let json_data_str =
                 (case str_find content JSON_PREAMBLE of
                    Some json_start_pos \<Rightarrow> drop (json_start_pos + length JSON_PREAMBLE) content
                  | None \<Rightarrow> content)
           in case json_loads json_data_str of
                Parsed v \<Rightarrow> Inr (Some v)
              | Json_decode_error \<Rightarrow> Inr None
              | Value_error \<Rightarrow> Inl ValueError
              | Recursion_error \<Rightarrow> Inl RecursionError))"

text \<open>
  A failure record is the dict \<^verbatim>\<open>{"type": ..., "data": ...}\<close> with one of two types.
\<close>

datatype failure =
    Parsing_error json
  | Failed_check json

text \<open>
  \<open>extract_failures\<close> is a generator: it hands out records one by one and may raise
  after some of them. The model returns the records yielded and the exception that ended
  the generator, if any.
\<close>

fun extract_entries :: "json list \<Rightarrow> failure list \<times> py_error option" where
  "extract_entries [] = ([], None)"
| "extract_entries (result # rest) =
     (if \<not> is_dict result then extract_entries rest
      else
        (case py_get result ''results'' (JObj []) of
           Inl e \<Rightarrow> ([], Some e)
         | Inr r1 \<Rightarrow>
        (case py_get r1 ''parsingErrors'' JNull of
           Inl e \<Rightarrow> ([], Some e)
         | Inr parsing_errors \<Rightarrow>
        (let first = (if truthy parsing_errors then [Parsing_error parsing_errors] else [])
         in
        (case py_get result ''results'' (JObj []) of
           Inl e \<Rightarrow> (first, Some e)
         | Inr r2 \<Rightarrow>
        (case py_get r2 ''failedChecks'' JNull of
           Inl e \<Rightarrow> (first, Some e)
         | Inr failed_checks \<Rightarrow>
            (if truthy failed_checks then
               (case py_iter failed_checks of
                  Inl e \<Rightarrow> (first, Some e)
                | Inr checks \<Rightarrow>
                    (case extract_entries rest of
                       (more, err) \<Rightarrow> (first @ map Failed_check checks @ more, err)))
             else
               (case extract_entries rest of
                  (more, err) \<Rightarrow> (first @ more, err)))))))))"

definition extract_failures :: "json \<Rightarrow> failure list \<times> py_error option" where
  "extract_failures scan_results =
     (case py_get scan_results ''result'' (JArr []) of
        Inl e \<Rightarrow> ([], Some e)
      | Inr result \<Rightarrow>
          (case py_iter result of
             Inl e \<Rightarrow> ([], Some e)
           | Inr entries \<Rightarrow> extract_entries entries))"

text \<open>
  An f-string field \<^verbatim>\<open>{v}\<close> is \<^verbatim>\<open>format(v, '')\<close>: a string is itself. What Python
  prints for the other values (numbers, the \<^verbatim>\<open>repr\<close> of a list or dict) is the
  parameter \<open>other\<close>.
\<close>

definition py_format :: "(json \<Rightarrow> string) \<Rightarrow> json \<Rightarrow> string" where
  "py_format other v = (case v of JStr s \<Rightarrow> s | _ \<Rightarrow> other v)"

text \<open>\<^verbatim>\<open>sep.join(parts)\<close>.\<close>

fun join :: "string \<Rightarrow> string list \<Rightarrow> string" where
  "join sep [] = []"
| "join sep [x] = x"
| "join sep (x # y # ys) = x @ sep @ join sep (y # ys)"

text \<open>
  One field of the details string:
  \<^verbatim>\<open>f"{FIELD_MAPPING.get(key, key)}={check_details.get(key) or 'None'}"\<close>.
\<close>

definition render_field :: "(json \<Rightarrow> string) \<Rightarrow> json \<Rightarrow> string \<Rightarrow> py_error + string" where
  "render_field other check_details key =
     (case py_get check_details key JNull of
        Inl e \<Rightarrow> Inl e
      | Inr v \<Rightarrow>
          Inr ((case map_of FIELD_MAPPING key of None \<Rightarrow> key | Some label \<Rightarrow> label)
               @ ''='' @ py_format other (if truthy v then v else JStr ''None'')))"

text \<open>The generator expression handed to \<open>join\<close>: it stops at the first exception.\<close>

fun render_fields :: "(json \<Rightarrow> string) \<Rightarrow> json \<Rightarrow> string list \<Rightarrow> py_error + string list" where
  "render_fields other check_details [] = Inr []"
| "render_fields other check_details (key # keys) =
     (case render_field other check_details key of
        Inl e \<Rightarrow> Inl e
      | Inr part \<Rightarrow>
          (case render_fields other check_details keys of
             Inl e \<Rightarrow> Inl e
           | Inr parts \<Rightarrow> Inr (part # parts)))"

text \<open>The line printed for one record.\<close>

fun report_line :: "(json \<Rightarrow> string) \<Rightarrow> failure \<Rightarrow> py_error + string" where
  "report_line other (Parsing_error d) =
     Inr (ERROR_PREFIX @ ''Parsing error file paths='' @ py_format other d)"
| "report_line other (Failed_check check_details) =
     (case render_fields other check_details (map fst FIELD_MAPPING) of
        Inl e \<Rightarrow> Inl e
      | Inr parts \<Rightarrow> Inr (ERROR_PREFIX @ join '', '' parts))"

text \<open>
  The loop of \<open>report_failures\<close>, with \<open>has_failures\<close> and the lines printed so far as
  its state. The result is the standard output and the return value or the exception.
\<close>

fun report_loop ::
  "(json \<Rightarrow> string) \<Rightarrow> bool \<Rightarrow> string list \<Rightarrow> failure list \<Rightarrow> py_error option
     \<Rightarrow> string list \<times> (py_error + bool)" where
  "report_loop other has_failures out [] gen_err =
     (case gen_err of None \<Rightarrow> (out, Inr has_failures) | Some e \<Rightarrow> (out, Inl e))"
| "report_loop other has_failures out (f # fs) gen_err =
     (case report_line other f of
        Inl e \<Rightarrow> (out, Inl e)
      | Inr line \<Rightarrow> report_loop other True (out @ [line]) fs gen_err)"

definition report_failures ::
  "(json \<Rightarrow> string) \<Rightarrow> failure list \<times> py_error option \<Rightarrow> string list \<times> (py_error + bool)" where
  "report_failures other failures =
     report_loop other False [] (fst failures) (snd failures)"

text \<open>How \<open>main\<close> ends: it returns an exit code or an exception leaves it.\<close>

datatype outcome =
    Returned int
  | Raised py_error

text \<open>
  \<open>main\<close>, from what reading the file named on the command line gives. Only standard
  output is kept.
\<close>

definition main ::
  "(string \<Rightarrow> parse_result) \<Rightarrow> (json \<Rightarrow> string) \<Rightarrow> read_result
     \<Rightarrow> string list \<times> outcome" where
  "main json_loads other file =
     (case load_scan_data json_loads file of
        Inl e \<Rightarrow> ([], Raised e)
      | Inr None \<Rightarrow> ([], Returned 1)
      | Inr (Some scan_data) \<Rightarrow>
          if \<not> truthy scan_data then ([], Returned 1)
          else
            (case py_get scan_data ''status'' JNull of
               Inl e \<Rightarrow> ([], Raised e)
             | Inr status \<Rightarrow>
                 if status \<noteq> JStr ''FINISHED'' then ([], Returned 1)
                 else
                   (case report_failures other (extract_failures scan_data) of
                      (out, Inl e) \<Rightarrow> (out, Raised e)
                    | (out, Inr any_failures_found) \<Rightarrow>
                        if any_failures_found then (out, Returned 1)
                        else (out @ [''Success: No failed checks or parsing errors found.''],
                              Returned 0))))"

text \<open>
  \<^verbatim>\<open>sys.exit(main())\<close>: the process ends with the code returned, and with 1 when an
  exception is not handled (those \<open>main\<close> lets through are all of class \<^verbatim>\<open>Exception\<close>).
\<close>

fun exit_status :: "outcome \<Rightarrow> int" where
  "exit_status (Returned n) = n"
| "exit_status (Raised e) = 1"

section \<open>file_utils.py\<close>

text \<open>
  The file system is a tree whose top is the working directory, taken to be the root
  directory. A node is a regular file with its content, a directory with its entries
  in the order the operating system lists them, or something that is neither (a
  socket, a device). There are no symbolic links. A
  path is the list of its components, as \<^verbatim>\<open>pathlib\<close> keeps them: names, and \<open>..\<close> where
  the path steps back. File names are byte strings, UTF-8 for what Python reads as text.
\<close>

datatype node =
    File string
  | Dir "(string \<times> node) list"
  | Special

type_synonym path = "string list"

text \<open>
  How the operating system resolves a path: \<open>walk\<close> follows it from the node \<open>cur\<close>,
  whose ancestors are \<open>up\<close>, the nearest first. A component is looked up in a directory
  only; \<open>..\<close> leads to the parent, and at the top it stays there.
\<close>

fun walk :: "node \<Rightarrow> node list \<Rightarrow> path \<Rightarrow> node option" where
  "walk cur up [] = Some cur"
| "walk cur up (x # p) =
     (case cur of
        Dir entries \<Rightarrow>
          if x = ''..'' then
            (case up of
               [] \<Rightarrow> walk cur [] p
             | parent # further \<Rightarrow> walk parent further p)
          else
            (case map_of entries x of
               None \<Rightarrow> None
             | Some c \<Rightarrow> walk c (cur # up) p)
      | _ \<Rightarrow> None)"

definition lookup :: "node \<Rightarrow> path \<Rightarrow> node option" where
  "lookup fs p = walk fs [] p"

fun is_file :: "node \<Rightarrow> bool" where
  "is_file (File content) = True"
| "is_file _ = False"

text \<open>
  \<^verbatim>\<open>root_dir.rglob("*")\<close>: every entry below the directory, the entries of a directory
  before those of its subdirectories, each with the node it names.
\<close>

fun rglob :: "path \<Rightarrow> node \<Rightarrow> (path \<times> node) list" where
  "rglob p (Dir entries) =
     map (\<lambda>e. (p @ [fst e], snd e)) entries
     @ concat (map (\<lambda>e. rglob (p @ [fst e]) (snd e)) entries)"
| "rglob p _ = []"

text \<open>
  \<^verbatim>\<open>str.lower\<close>, as far as a comparison with an ASCII word can tell: the letters \<open>A\<close> to
  \<open>Z\<close> are folded and every other byte is kept. Outside ASCII one character only has an
  ASCII lower case, the Kelvin sign, which becomes \<open>k\<close>: a letter no supported extension
  has.
\<close>

definition lower_char :: "char \<Rightarrow> char" where
  "lower_char c =
     (if 65 \<le> (of_char c :: nat) \<and> (of_char c :: nat) \<le> 90
      then char_of ((of_char c :: nat) + 32) else c)"

definition lower :: "string \<Rightarrow> string" where
  "lower s = map lower_char s"

text \<open>\<^verbatim>\<open>name.rfind('.')\<close>, \<open>None\<close> for \<open>-1\<close>.\<close>

fun rfind :: "string \<Rightarrow> char \<Rightarrow> nat option" where
  "rfind [] c = None"
| "rfind (x # xs) c =
     (case rfind xs c of
        Some i \<Rightarrow> Some (Suc i)
      | None \<Rightarrow> if x = c then Some 0 else None)"

text \<open>
  \<^verbatim>\<open>PurePath.suffix\<close> (Python 3.8 to 3.13): the last dot and what follows it, unless
  that dot is the first or the last character of the name.
\<close>

definition path_suffix :: "string \<Rightarrow> string" where
  "path_suffix name =
     (case rfind name (CHR ''.'') of
        None \<Rightarrow> []
      | Some i \<Rightarrow> if 0 < i \<and> i < length name - 1 then drop i name else [])"

definition SUPPORTED_EXTENSIONS :: "string list" where
  "SUPPORTED_EXTENSIONS = [''.tf'', ''.json'', ''.yaml'', ''.yml'', ''.template'']"

text \<open>
  \<open>IAC_REGEX\<close> is an alternation of ASCII literals compiled with \<^verbatim>\<open>re.IGNORECASE\<close>, and
  it is matched against a \<^verbatim>\<open>str\<close>. Ignoring case, a character equals an ASCII letter
  when it is that letter in either case, and four more characters do: the Kelvin sign
  U+212A equals \<open>k\<close>, the long s U+017F equals \<open>s\<close>, the dotless i U+0131 and the dotted
  capital I U+0130 equal \<open>i\<close>. \<open>fold_unit\<close> reads the character at the head of a text in
  UTF-8: the letter it equals and the number of bytes it takes. Any other byte is
  taken by itself and is no letter.
\<close>

definition fold_unit :: "string \<Rightarrow> char \<times> nat" where
  "fold_unit s =
     (if prefix [CHR 0xE2, CHR 0x84, CHR 0xAA] s then (CHR ''k'', 3)
      else if prefix [CHR 0xC5, CHR 0xBF] s then (CHR ''s'', 2)
      else if prefix [CHR 0xC4, CHR 0xB1] s \<or> prefix [CHR 0xC4, CHR 0xB0] s then (CHR ''i'', 2)
      else (lower_char (hd s), 1))"

text \<open>
  \<open>match_here\<close> matches one literal at the start of a text, character by character;
  \<open>re_search\<close> tries every character position from left to right.
\<close>

definition IAC_REGEX :: "string list" where
  "IAC_REGEX =
     [''main'', ''infra'', ''template'', ''cloudformation'', ''terraform'', ''cdk'', ''stack'']"

fun match_here :: "string \<Rightarrow> string \<Rightarrow> bool" where
  "match_here [] s = True"
| "match_here (t # ts) [] = False"
| "match_here (t # ts) (c # cs) =
     (lower_char t = fst (fold_unit (c # cs))
      \<and> match_here ts (drop (snd (fold_unit (c # cs)) - 1) cs))"

fun re_search :: "string list \<Rightarrow> string \<Rightarrow> bool" where
  "re_search alts [] = list_ex (\<lambda>a. match_here a []) alts"
| "re_search alts (c # cs) =
     (list_ex (\<lambda>a. match_here a (c # cs)) alts
      \<or> re_search alts (drop (snd (fold_unit (c # cs)) - 1) cs))"

definition is_likely_iac_file :: "path \<Rightarrow> bool" where
  "is_likely_iac_file file = re_search IAC_REGEX (last file)"

definition find_iac_templates :: "node \<Rightarrow> path \<Rightarrow> py_error + path list" where
  "find_iac_templates fs root_dir =
     (case lookup fs root_dir of
        Some (Dir entries) \<Rightarrow>
          Inr (map fst
                 (filter (\<lambda>f. is_file (snd f)
                               \<and> lower (path_suffix (last (fst f))) \<in> set SUPPORTED_EXTENSIONS
                               \<and> is_likely_iac_file (fst f))
                    (rglob root_dir (Dir entries))))
      | _ \<Rightarrow> Inl FileNotFoundError)"

text \<open>
  \<^verbatim>\<open>file_path.relative_to(base_dir)\<close> compares components and raises \<^verbatim>\<open>ValueError\<close>
  when \<open>base_dir\<close> is not a leading part of \<open>file_path\<close>.
\<close>

definition relative_to :: "path \<Rightarrow> path \<Rightarrow> py_error + path" where
  "relative_to file_path base_dir =
     (if prefix base_dir file_path then Inr (drop (length base_dir) file_path)
      else Inl ValueError)"

text \<open>
  \<^verbatim>\<open>os.path.normpath\<close> on a relative path: a name followed by \<open>..\<close> cancels, a leading
  \<open>..\<close> stays. \<open>acc\<close> holds the components kept so far, the last one first; the empty
  path stands for \<open>.\<close>.
\<close>

fun norm_acc :: "path \<Rightarrow> path \<Rightarrow> path" where
  "norm_acc acc [] = rev acc"
| "norm_acc acc (x # p) =
     (if x = ''..'' \<and> acc \<noteq> [] \<and> hd acc \<noteq> ''..'' then norm_acc (tl acc) p
      else norm_acc (x # acc) p)"

definition normpath :: "path \<Rightarrow> path" where
  "normpath p = norm_acc [] p"

text \<open>
  An archive entry: a file with its name and bytes, or a directory, whose name the
  archive writes with a final slash.
\<close>

datatype zip_entry =
    File_entry path string
  | Dir_entry path

fun entry_name :: "zip_entry \<Rightarrow> path" where
  "entry_name (File_entry name content) = name"
| "entry_name (Dir_entry name) = name"

text \<open>
  What a run leaves in its working directory: the archive, \<^verbatim>\<open>results.json\<close>,
  \<^verbatim>\<open>results.sarif\<close>. \<open>writable\<close> says whether a file can be created at a path, and
  \<open>before_1980\<close> whether the file at a path was last modified before 1980.
\<close>

datatype artifact =
    Archive "zip_entry list"
  | Json_file json
  | Text_file string

record world =
  tree :: node
  disk :: "path \<Rightarrow> artifact option"
  writable :: "path \<Rightarrow> bool"
  before_1980 :: "path \<Rightarrow> bool"

text \<open>
  \<^verbatim>\<open>zf.write(file_path, arcname)\<close>: the file is looked up (\<^verbatim>\<open>FileNotFoundError\<close> when the
  path names nothing), its time stamp is checked (\<^verbatim>\<open>ValueError\<close> before 1980), the
  name is normalised, and the bytes are read (\<^verbatim>\<open>OSError\<close> for what cannot be read).
\<close>

definition zf_write :: "world \<Rightarrow> path \<Rightarrow> path \<Rightarrow> py_error + zip_entry" where
  "zf_write w file_path arcname =
     (case lookup (tree w) file_path of
        None \<Rightarrow> Inl FileNotFoundError
      | Some n \<Rightarrow>
          if before_1980 w file_path then Inl ValueError
          else
            (case n of
               File content \<Rightarrow> Inr (File_entry (normpath arcname) content)
             | Dir entries \<Rightarrow> Inr (Dir_entry (normpath arcname))
             | Special \<Rightarrow> Inl OSError))"

text \<open>
  The loop of \<open>create_zip_archive\<close>: the entries written so far, and the exception that
  stopped it, which the handler logs and raises again.
\<close>

fun zip_files :: "world \<Rightarrow> path \<Rightarrow> zip_entry list \<Rightarrow> path list \<Rightarrow> zip_entry list \<times> py_error option" where
  "zip_files w base_dir zf [] = (zf, None)"
| "zip_files w base_dir zf (file_path # files) =
     (case relative_to file_path base_dir of
        Inl e \<Rightarrow> (zf, Some e)
      | Inr arcname \<Rightarrow>
          (case zf_write w file_path arcname of
             Inl e \<Rightarrow> (zf, Some e)
           | Inr entry \<Rightarrow> zip_files w base_dir (zf @ [entry]) files))"

text \<open>
  \<open>create_zip_archive\<close>: opening the archive for writing creates it; the entries written
  before an exception stay in it.
\<close>

definition create_zip_archive :: "world \<Rightarrow> path \<Rightarrow> path list \<Rightarrow> path \<Rightarrow> world \<times> py_error option" where
  "create_zip_archive w output_path files base_dir =
     (if \<not> writable w output_path then (w, Some OSError)
      else
        (case zip_files w base_dir [] files of
           (zf, err) \<Rightarrow> (w\<lparr>disk := (disk w)(output_path \<mapsto> Archive zf)\<rparr>, err)))"

section \<open>qualys_client.py\<close>

text \<open>
  The polling loop reads the clock, sends a request and sleeps. The clock is simulated:
  \<open>now\<close> is what \<^verbatim>\<open>time.time()\<close> returns, a request takes the time its answer says,
  a sleep takes the time asked for. A status source maps the scan UUID and the number
  of requests already sent to the duration and the result of the next one:
  \<^verbatim>\<open>RequestException\<close> when the request or \<^verbatim>\<open>raise_for_status\<close> fails, the decoded
  body otherwise. \<open>issued\<close> records, for every request sent, the time elapsed since
  \<open>start_time\<close> when it was sent.
\<close>

type_synonym status_source = "string \<Rightarrow> nat \<Rightarrow> real \<times> (py_error + json)"

record poll_state =
  now :: real
  fetched :: nat
  issued :: "real list"

text \<open>\<^verbatim>\<open>time.sleep(interval)\<close> raises \<^verbatim>\<open>ValueError\<close> for a negative length.\<close>

definition py_sleep :: "int \<Rightarrow> poll_state \<Rightarrow> py_error + poll_state" where
  "py_sleep interval s =
     (if interval < 0 then Inl ValueError
      else Inr (s\<lparr>now := now s + of_int interval\<rparr>))"

text \<open>One request: the clock advances, the counter and the record grow.\<close>

definition session_get :: "status_source \<Rightarrow> string \<Rightarrow> real \<Rightarrow> poll_state \<Rightarrow> (py_error + json) \<times> poll_state" where
  "session_get src scan_uuid start_time s =
     (case src scan_uuid (fetched s) of
        (duration, response) \<Rightarrow>
          (response,
           s\<lparr>now := now s + duration,
             fetched := Suc (fetched s),
             issued := issued s @ [now s - start_time]\<rparr>))"

text \<open>
  The \<^verbatim>\<open>while\<close> loop of \<open>poll_scan_results\<close>. It need not end (a zero interval and
  requests that take no time never move the simulated clock), so the result is an
  option: \<open>None\<close> is a loop that runs forever.
\<close>

partial_function (option) poll_loop ::
  "status_source \<Rightarrow> string \<Rightarrow> int \<Rightarrow> int \<Rightarrow> real \<Rightarrow> poll_state
     \<Rightarrow> ((py_error + json) \<times> poll_state) option" where
  "poll_loop src scan_uuid interval timeout start_time s =
     (if now s - start_time < of_int timeout then
        (case session_get src scan_uuid start_time s of
           (Inl e, s1) \<Rightarrow> Some (Inl e, s1)
         | (Inr data, s1) \<Rightarrow>
             (case py_get data ''status'' (JStr ''UNKNOWN'') of
                Inl e \<Rightarrow> Some (Inl e, s1)
              | Inr status \<Rightarrow>
                  if status = JStr ''FINISHED'' then Some (Inr data, s1)
                  else
                    (case py_sleep interval s1 of
                       Inl e \<Rightarrow> Some (Inl e, s1)
                     | Inr s2 \<Rightarrow> poll_loop src scan_uuid interval timeout start_time s2)))
      else Some (Inl (TimeoutError timeout), s))"

definition poll_scan_results ::
  "status_source \<Rightarrow> string \<Rightarrow> int \<Rightarrow> int \<Rightarrow> poll_state
     \<Rightarrow> ((py_error + json) \<times> poll_state) option" where
  "poll_scan_results src scan_uuid interval timeout s =
     (let start_time = now s
      in poll_loop src scan_uuid interval timeout start_time s)"

section \<open>main.py\<close>











section \<open>The specification's data model\<close>

text \<open>
  The specification types a result entry as a record with a list of parsing errors and
  a list of failed checks, and a failed check as a record of optional strings. The
  definitions of this section state that reading, to compare the code with; an absent
  key and \<^verbatim>\<open>null\<close> both count as "no value".
\<close>

fun list_or_absent :: "json option \<Rightarrow> bool" where
  "list_or_absent None = True"
| "list_or_absent (Some JNull) = True"
| "list_or_absent (Some (JArr xs)) = True"
| "list_or_absent _ = False"

text \<open>
  An element of the \<open>result\<close> array the extractor accepts: anything that is not a dict,
  or a dict whose \<open>results\<close> is absent or a dict holding the two lists.
\<close>

definition spec_well_formed_entry :: "json \<Rightarrow> bool" where
  "spec_well_formed_entry entry =
     (case entry of
        JObj kvs \<Rightarrow>
          (case map_of kvs ''results'' of
             None \<Rightarrow> True
           | Some (JObj r) \<Rightarrow>
               list_or_absent (map_of r ''parsingErrors'') \<and> list_or_absent (map_of r ''failedChecks'')
           | Some _ \<Rightarrow> False)
      | _ \<Rightarrow> True)"

text \<open>The list found at \<open>results.key\<close> of an entry, empty when there is none.\<close>

definition spec_field_list :: "json \<Rightarrow> string \<Rightarrow> json list" where
  "spec_field_list entry key =
     (case entry of
        JObj kvs \<Rightarrow>
          (case map_of kvs ''results'' of
             Some (JObj r) \<Rightarrow> (case map_of r key of Some (JArr xs) \<Rightarrow> xs | _ \<Rightarrow> [])
           | _ \<Rightarrow> [])
      | _ \<Rightarrow> [])"

text \<open>
  The records one entry stands for: one parsing-error record with the whole list when
  it is not empty, then one failed-check record per failed check.
\<close>

definition spec_entry_records :: "json \<Rightarrow> failure list" where
  "spec_entry_records entry =
     (if spec_field_list entry ''parsingErrors'' \<noteq> []
      then [Parsing_error (JArr (spec_field_list entry ''parsingErrors''))] else [])
     @ map Failed_check (spec_field_list entry ''failedChecks'')"







text \<open>
  A node lies below a directory at a relative path: the path leads to it through
  entries of the directory and of its subdirectories.
\<close>

fun below :: "node \<Rightarrow> path \<Rightarrow> node \<Rightarrow> bool" where
  "below (Dir entries) [x] n = ((x, n) \<in> set entries)"
| "below (Dir entries) (x # y # p) n =
     list_ex (\<lambda>e. fst e = x \<and> below (snd e) (y # p) n) entries"
| "below _ _ n = False"

text \<open>
  A file name with case ignored: every character that equals an ASCII letter when case
  is ignored is replaced by that letter in lower case.
\<close>

fun casefold :: "string \<Rightarrow> string" where
  "casefold [] = []"
| "casefold (c # cs) =
     fst (fold_unit (c # cs)) # casefold (drop (snd (fold_unit (c # cs)) - 1) cs)"

text \<open>A byte that continues one of the four characters.\<close>

definition continuation :: "char \<Rightarrow> bool" where
  "continuation c \<longleftrightarrow> c \<in> {CHR 0x84, CHR 0xAA, CHR 0xBF, CHR 0xB1, CHR 0xB0}"

text \<open>The two conditions on a file name: its extension, and a token somewhere in it.\<close>

definition spec_supported_extension :: "string \<Rightarrow> bool" where
  "spec_supported_extension name =
     (lower (path_suffix name) \<in> {''.tf'', ''.json'', ''.yaml'', ''.yml'', ''.template''})"

definition spec_has_token :: "string \<Rightarrow> bool" where
  "spec_has_token name =
     (\<exists>token \<in> {''main'', ''infra'', ''template'', ''cloudformation'', ''terraform'', ''cdk'', ''stack''}.
        sublist token (casefold name))"

text \<open>
  What a status source answers: a body whose \<open>status\<close> is \<open>FINISHED\<close>, or a body with
  any other status or none.
\<close>

definition answers_terminal :: "real \<times> (py_error + json) \<Rightarrow> bool" where
  "answers_terminal r =
     (case snd r of
        Inr (JObj kvs) \<Rightarrow> map_of kvs ''status'' = Some (JStr ''FINISHED'')
      | _ \<Rightarrow> False)"

definition answers_non_terminal :: "real \<times> (py_error + json) \<Rightarrow> bool" where
  "answers_non_terminal r =
     (case snd r of
        Inr (JObj kvs) \<Rightarrow> map_of kvs ''status'' \<noteq> Some (JStr ''FINISHED'')
      | _ \<Rightarrow> False)"

text \<open>
  The simulated time that \<open>j\<close> rounds of the loop take from request number \<open>k\<close> on:
  each round is one request and one sleep.
\<close>

fun elapsed_after :: "status_source \<Rightarrow> string \<Rightarrow> int \<Rightarrow> nat \<Rightarrow> nat \<Rightarrow> real" where
  "elapsed_after src scan_uuid interval k 0 = 0"
| "elapsed_after src scan_uuid interval k (Suc j) =
     fst (src scan_uuid k) + of_int interval + elapsed_after src scan_uuid interval (Suc k) j"

section \<open>Exit status of the result parser\<close>

lemma report_loop_Inr:
  "snd (report_loop other h out fs gen_err) = Inr b \<Longrightarrow> gen_err = None \<and> b = (h \<or> fs \<noteq> [])"
  by (induction fs arbitrary: h out) (auto split: option.splits sum.splits)

lemma report_failures_Inr:
  "snd (report_failures other (fs, gen_err)) = Inr b \<Longrightarrow> gen_err = None \<and> b = (fs \<noteq> [])"
  unfolding report_failures_def using report_loop_Inr [of other False "[]" fs gen_err b] by simp

lemma report_failures_empty: "report_failures other ([], None) = ([], Inr False)"
  by (simp add: report_failures_def)

text \<open>
  Claim C1. The process started on \<open>main\<close> ends with status 0 exactly when the file
  loads to a payload whose \<open>status\<close> is \<open>FINISHED\<close> and the extractor runs to its end
  without yielding a record. Every other run ends with status 1: the file does not load,
  the status differs, a record is consumed, or an exception is not handled. Once the
  status check has passed, the value \<open>report_failures\<close> returns, true exactly when a
  record was yielded, decides between the two codes.
\<close>

theorem main_exit_status:
  "(exit_status (snd (main json_loads other file)) = 0 \<longleftrightarrow>
      (\<exists>kvs. load_scan_data json_loads file = Inr (Some (JObj kvs))
           \<and> map_of kvs ''status'' = Some (JStr ''FINISHED'')
           \<and> extract_failures (JObj kvs) = ([], None)))
   \<and> (exit_status (snd (main json_loads other file)) \<noteq> 0 \<longrightarrow>
        exit_status (snd (main json_loads other file)) = 1)
   \<and> (\<forall>kvs b. load_scan_data json_loads file = Inr (Some (JObj kvs))
           \<and> map_of kvs ''status'' = Some (JStr ''FINISHED'')
           \<and> snd (report_failures other (extract_failures (JObj kvs))) = Inr b
        \<longrightarrow> b = (fst (extract_failures (JObj kvs)) \<noteq> [])
            \<and> snd (main json_loads other file) = Returned (if b then 1 else 0))"
proof (cases "\<exists>scan_data. load_scan_data json_loads file = Inr (Some scan_data)")
  case False
  have "snd (main json_loads other file) = Returned 1 \<or> (\<exists>e. snd (main json_loads other file) = Raised e)"
    using False by (auto simp: main_def split: sum.splits option.splits)
  then have "exit_status (snd (main json_loads other file)) = 1" by auto
  then show ?thesis using False by auto
next
  case True
  then obtain scan_data where Some: "load_scan_data json_loads file = Inr (Some scan_data)"
    by blast
  show ?thesis
  proof (cases "\<exists>kvs. scan_data = JObj kvs \<and> map_of kvs ''status'' = Some (JStr ''FINISHED'')")
    case False
    have "snd (main json_loads other file) = Returned 1 \<or> (\<exists>e. snd (main json_loads other file) = Raised e)"
      using Some False by (cases scan_data) (auto simp: main_def split: option.splits)
    then have "exit_status (snd (main json_loads other file)) = 1" by auto
    then show ?thesis using Some False by auto
  next
    case True
    then obtain kvs where kvs: "scan_data = JObj kvs" "map_of kvs ''status'' = Some (JStr ''FINISHED'')"
      by blast
    then have ne: "kvs \<noteq> []" by auto
    obtain fs gen_err where ex: "extract_failures (JObj kvs) = (fs, gen_err)"
      by (cases "extract_failures (JObj kvs)")
    obtain out r where rep: "report_failures other (fs, gen_err) = (out, r)"
      by (cases "report_failures other (fs, gen_err)")
    show ?thesis
    proof (cases r)
      case (Inl e)
      then have m: "snd (main json_loads other file) = Raised e"
        using Some kvs ne ex rep by (simp add: main_def)
      have "\<not> (fs = [] \<and> gen_err = None)"
      proof
        assume "fs = [] \<and> gen_err = None"
        then have "report_failures other (fs, gen_err) = ([], Inr False)"
          by (simp add: report_failures_empty)
        then show False using rep Inl by simp
      qed
      then show ?thesis using m Some kvs ex rep Inl by auto
    next
      case (Inr b)
      then have m: "snd (main json_loads other file) = Returned (if b then 1 else 0)"
        using Some kvs ne ex rep by (simp add: main_def)
      have b: "gen_err = None \<and> b = (fs \<noteq> [])"
        using report_failures_Inr [of other fs gen_err b] rep Inr by simp
      show ?thesis using m b Some kvs ex rep Inr by auto
    qed
  qed
qed

theorem main_exit_status_witness:
  "load_scan_data (\<lambda>s. Parsed (JObj [(''status'', JStr ''FINISHED''), (''result'', JArr [JNum 3])]))
       (Content ''{}'')
     = Inr (Some (JObj [(''status'', JStr ''FINISHED''), (''result'', JArr [JNum 3])]))
   \<and> map_of [(''status'', JStr ''FINISHED''), (''result'', JArr [JNum 3])] ''status''
        = Some (JStr ''FINISHED'')
   \<and> extract_failures (JObj [(''status'', JStr ''FINISHED''), (''result'', JArr [JNum 3])])
        = ([], None)
   \<and> exit_status (snd (main
          (\<lambda>s. Parsed (JObj [(''status'', JStr ''FINISHED''), (''result'', JArr [JNum 3])]))
          (\<lambda>v. []) (Content ''{}''))) = 0"
proof -
  let ?kvs = "[(''status'', JStr ''FINISHED''), (''result'', JArr [JNum 3])]"
  have h1: "load_scan_data (\<lambda>s. Parsed (JObj ?kvs)) (Content ''{}'') = Inr (Some (JObj ?kvs))"
    by (simp add: load_scan_data_def split: option.splits)
  have h2: "map_of ?kvs ''status'' = Some (JStr ''FINISHED'')" by simp
  have h3: "extract_failures (JObj ?kvs) = ([], None)" by (simp add: extract_failures_def)
  from main_exit_status [of "\<lambda>s. Parsed (JObj ?kvs)" "\<lambda>v. []" "Content ''{}''"] h1 h2 h3
  have "exit_status (snd (main (\<lambda>s. Parsed (JObj ?kvs)) (\<lambda>v. []) (Content ''{}''))) = 0"
    by blast
  then show ?thesis using h1 h2 h3 by simp
qed

section \<open>The failure extractor\<close>

lemma extract_entry_step:
  assumes "spec_well_formed_entry entry"
  shows "extract_entries (entry # rest) =
           (spec_entry_records entry @ fst (extract_entries rest), snd (extract_entries rest))"
proof (cases entry)
  case (JObj kvs)
  show ?thesis
  proof (cases "map_of kvs ''results''")
    case None
    then show ?thesis using JObj
      by (simp add: spec_entry_records_def spec_field_list_def split: prod.splits)
  next
    case (Some r)
    then obtain rs where r: "r = JObj rs"
      using assms JObj by (cases r) (auto simp: spec_well_formed_entry_def)
    have pe: "list_or_absent (map_of rs ''parsingErrors'')"
      and fc: "list_or_absent (map_of rs ''failedChecks'')"
      using assms JObj Some r by (auto simp: spec_well_formed_entry_def)
    from pe fc show ?thesis using JObj Some r
      by (cases "map_of rs ''parsingErrors''" rule: list_or_absent.cases;
          cases "map_of rs ''failedChecks''" rule: list_or_absent.cases)
         (simp_all add: spec_entry_records_def spec_field_list_def split: prod.splits)
  qed
qed (simp_all add: spec_entry_records_def spec_field_list_def)

lemma extract_entries_well_formed:
  "list_all spec_well_formed_entry entries \<Longrightarrow>
     extract_entries entries = (concat (map spec_entry_records entries), None)"
proof (induction entries)
  case Nil
  show ?case by simp
next
  case (Cons entry rest)
  then have "spec_well_formed_entry entry" and "extract_entries rest = (concat (map spec_entry_records rest), None)"
    by simp_all
  then show ?case using extract_entry_step [of entry rest] by simp
qed

text \<open>
  Claim C5, as stated, fails: a dict entry whose \<open>results\<close> is not a dict is not a
  well-formed record, and it is not skipped: the generator raises \<^verbatim>\<open>AttributeError\<close>.
\<close>

theorem extract_failures_malformed_entry_raises:
  "extract_failures (JObj [(''result'', JArr [JObj [(''results'', JNull)]])]) = ([], Some AttributeError)"
  by (simp add: extract_failures_def)

text \<open>
  Claim C5, amended. For a payload whose \<open>result\<close> is a list in which every dict entry
  has \<open>results\<close> absent or a dict with \<open>parsingErrors\<close> and \<open>failedChecks\<close> each a list or
  without value, the extractor ends normally and yields, entry by entry in order, one
  parsing-error record with the whole list when it is not empty, then one failed-check
  record per failed check in order. Elements that are not dicts are skipped. An entry
  with parsing errors, a number and an entry with two failed checks give three records.
\<close>

theorem extract_failures_records:
  "(map_of payload ''result'' = Some (JArr entries) \<and> list_all spec_well_formed_entry entries
      \<longrightarrow> extract_failures (JObj payload) = (concat (map spec_entry_records entries), None))
   \<and> (\<forall>entry. \<not> is_dict entry \<longrightarrow> spec_well_formed_entry entry \<and> spec_entry_records entry = [])
   \<and> (\<forall>entry. is_dict entry \<and> spec_well_formed_entry entry \<longrightarrow>
         spec_entry_records entry =
           (if spec_field_list entry ''parsingErrors'' \<noteq> []
            then [Parsing_error (JArr (spec_field_list entry ''parsingErrors''))] else [])
           @ map Failed_check (spec_field_list entry ''failedChecks''))"
proof (intro conjI impI allI)
  assume "map_of payload ''result'' = Some (JArr entries) \<and> list_all spec_well_formed_entry entries"
  then show "extract_failures (JObj payload) = (concat (map spec_entry_records entries), None)"
    by (simp add: extract_failures_def extract_entries_well_formed)
next
  fix entry assume "\<not> is_dict entry"
  then show "spec_well_formed_entry entry"
    by (cases entry) (simp_all add: spec_well_formed_entry_def)
next
  fix entry assume "\<not> is_dict entry"
  then show "spec_entry_records entry = []"
    by (cases entry) (simp_all add: spec_entry_records_def spec_field_list_def)
next
  fix entry
  show "spec_entry_records entry =
           (if spec_field_list entry ''parsingErrors'' \<noteq> []
            then [Parsing_error (JArr (spec_field_list entry ''parsingErrors''))] else [])
           @ map Failed_check (spec_field_list entry ''failedChecks'')"
    by (simp add: spec_entry_records_def)
qed

theorem extract_failures_records_witness:
  "map_of [(''status'', JStr ''FINISHED''),
           (''result'', JArr [JObj [(''results'', JObj [(''parsingErrors'', JArr [JStr ''a.tf''])])],
                              JNum 7,
                              JObj [(''results'', JObj [(''failedChecks'',
                                       JArr [JObj [(''checkId'', JStr ''CID-1'')],
                                             JObj [(''checkId'', JStr ''CID-2'')]])])]])]
      ''result''
    = Some (JArr [JObj [(''results'', JObj [(''parsingErrors'', JArr [JStr ''a.tf''])])],
                  JNum 7,
                  JObj [(''results'', JObj [(''failedChecks'',
                           JArr [JObj [(''checkId'', JStr ''CID-1'')],
                                 JObj [(''checkId'', JStr ''CID-2'')]])])]])
   \<and> list_all spec_well_formed_entry
        [JObj [(''results'', JObj [(''parsingErrors'', JArr [JStr ''a.tf''])])],
         JNum 7,
         JObj [(''results'', JObj [(''failedChecks'',
                  JArr [JObj [(''checkId'', JStr ''CID-1'')],
                        JObj [(''checkId'', JStr ''CID-2'')]])])]]
   \<and> extract_failures
        (JObj [(''status'', JStr ''FINISHED''),
           (''result'', JArr [JObj [(''results'', JObj [(''parsingErrors'', JArr [JStr ''a.tf''])])],
                              JNum 7,
                              JObj [(''results'', JObj [(''failedChecks'',
                                       JArr [JObj [(''checkId'', JStr ''CID-1'')],
                                             JObj [(''checkId'', JStr ''CID-2'')]])])]])])
      = ([Parsing_error (JArr [JStr ''a.tf'']),
          Failed_check (JObj [(''checkId'', JStr ''CID-1'')]),
          Failed_check (JObj [(''checkId'', JStr ''CID-2'')])], None)"
proof -
  let ?entries = "[JObj [(''results'', JObj [(''parsingErrors'', JArr [JStr ''a.tf''])])],
         JNum 7,
         JObj [(''results'', JObj [(''failedChecks'',
                  JArr [JObj [(''checkId'', JStr ''CID-1'')],
                        JObj [(''checkId'', JStr ''CID-2'')]])])]]"
  let ?payload = "[(''status'', JStr ''FINISHED''), (''result'', JArr ?entries)]"
  have h1: "map_of ?payload ''result'' = Some (JArr ?entries)" by simp
  have h2: "list_all spec_well_formed_entry ?entries"
    by (simp add: spec_well_formed_entry_def)
  have r: "concat (map spec_entry_records ?entries)
           = [Parsing_error (JArr [JStr ''a.tf'']),
              Failed_check (JObj [(''checkId'', JStr ''CID-1'')]),
              Failed_check (JObj [(''checkId'', JStr ''CID-2'')])]"
    by (simp add: spec_entry_records_def spec_field_list_def)
  from extract_failures_records [of ?payload ?entries] h1 h2
  have "extract_failures (JObj ?payload) = (concat (map spec_entry_records ?entries), None)"
    by blast
  then show ?thesis using h1 h2 r by simp
qed

section \<open>The reporter's lines\<close>







section \<open>Finding the templates\<close>

lemma below_nonempty: "below d q n \<Longrightarrow> q \<noteq> []"
  by (cases d; cases q) auto

lemma below_Dir:
  "below (Dir entries) q n \<longleftrightarrow>
     (\<exists>e \<in> set entries. q = [fst e] \<and> n = snd e \<or> (\<exists>q2. q = fst e # q2 \<and> below (snd e) q2 n))"
proof (cases q)
  case Nil
  then show ?thesis by auto
next
  case (Cons x q1)
  show ?thesis
  proof (cases q1)
    case Nil
    then show ?thesis using Cons by (force dest: below_nonempty)
  next
    case (Cons y q2)
    then show ?thesis using \<open>q = x # q1\<close> by (auto simp: list_ex_iff)
  qed
qed

lemma rglob_iff:
  "(q', n) \<in> set (rglob p d) \<longleftrightarrow> (\<exists>q. q' = p @ q \<and> below d q n)"
proof (induction p d arbitrary: q' n rule: rglob.induct)
  case (1 p entries)
  have "(q', n) \<in> set (rglob p (Dir entries)) \<longleftrightarrow>
        (\<exists>e \<in> set entries. (q' = p @ [fst e] \<and> n = snd e)
                         \<or> (q', n) \<in> set (rglob (p @ [fst e]) (snd e)))"
    by auto
  also have "\<dots> \<longleftrightarrow> (\<exists>e \<in> set entries. (q' = p @ [fst e] \<and> n = snd e)
                         \<or> (\<exists>q2. q' = (p @ [fst e]) @ q2 \<and> below (snd e) q2 n))"
    using 1 by blast
  also have "\<dots> \<longleftrightarrow> (\<exists>q. q' = p @ q \<and> below (Dir entries) q n)"
    unfolding below_Dir by auto
  finally show ?case .
qed simp_all

lemma match_here_iff: "match_here t s \<longleftrightarrow> prefix (lower t) (casefold s)"
  by (induction t s rule: match_here.induct) (simp_all add: lower_def)

lemma re_search_iff: "re_search alts s \<longleftrightarrow> (\<exists>a \<in> set alts. sublist (lower a) (casefold s))"
proof (induction alts s rule: re_search.induct)
  case (1 alts)
  then show ?case by (simp add: list_ex_iff match_here_iff lower_def)
next
  case (2 alts c cs)
  then show ?case
    by (auto simp: list_ex_iff match_here_iff sublist_Cons_right)
qed

lemma lower_tokens:
  "lower ''main'' = ''main''" "lower ''infra'' = ''infra''" "lower ''template'' = ''template''"
  "lower ''cloudformation'' = ''cloudformation''" "lower ''terraform'' = ''terraform''"
  "lower ''cdk'' = ''cdk''" "lower ''stack'' = ''stack''"
  by (simp_all add: lower_def lower_char_def)

lemma is_likely_iac_file_iff: "is_likely_iac_file file \<longleftrightarrow> spec_has_token (last file)"
  by (simp add: is_likely_iac_file_def re_search_iff IAC_REGEX_def spec_has_token_def lower_tokens)

lemma find_iac_templates_set:
  assumes "lookup fs root_dir = Some (Dir entries)"
  shows "\<exists>found. find_iac_templates fs root_dir = Inr found
           \<and> set found = {root_dir @ p | p. (\<exists>content. below (Dir entries) p (File content))
                                        \<and> spec_supported_extension (last p) \<and> spec_has_token (last p)}"
proof -
  define rg where "rg = rglob root_dir (Dir entries)"
  define sel where "sel = (\<lambda>f :: path \<times> node. is_file (snd f)
                     \<and> lower (path_suffix (last (fst f))) \<in> set SUPPORTED_EXTENSIONS
                     \<and> is_likely_iac_file (fst f))"
  have rg: "\<And>q n. (q, n) \<in> set rg \<longleftrightarrow> (\<exists>p. q = root_dir @ p \<and> below (Dir entries) p n)"
    unfolding rg_def by (rule rglob_iff)
  have sel: "\<And>p n. p \<noteq> [] \<Longrightarrow> sel (root_dir @ p, n) \<longleftrightarrow>
               (\<exists>content. n = File content) \<and> spec_supported_extension (last p) \<and> spec_has_token (last p)"
  proof -
    fix p :: path and n assume "p \<noteq> []"
    then have "last (root_dir @ p) = last p" by simp
    moreover have "is_file n \<longleftrightarrow> (\<exists>content. n = File content)" by (cases n) simp_all
    ultimately show "sel (root_dir @ p, n) \<longleftrightarrow>
               (\<exists>content. n = File content) \<and> spec_supported_extension (last p) \<and> spec_has_token (last p)"
      by (simp add: sel_def spec_supported_extension_def SUPPORTED_EXTENSIONS_def
            is_likely_iac_file_iff)
  qed
  have f: "find_iac_templates fs root_dir = Inr (map fst (filter sel rg))"
    using assms by (simp add: find_iac_templates_def sel_def rg_def del: rglob.simps)
  have "set (map fst (filter sel rg))
          = {root_dir @ p | p. (\<exists>content. below (Dir entries) p (File content))
                                        \<and> spec_supported_extension (last p) \<and> spec_has_token (last p)}"
    (is "?L = ?R")
  proof (intro set_eqI iffI)
    fix q assume "q \<in> ?L"
    then obtain n where n: "(q, n) \<in> set rg" "sel (q, n)"
      by auto
    then obtain p where p: "q = root_dir @ p" "below (Dir entries) p n"
      using rg by blast
    then have "p \<noteq> []" by (auto dest: below_nonempty)
    then show "q \<in> ?R" using n(2) p sel [of p n] by auto
  next
    fix q assume "q \<in> ?R"
    then obtain p content where p: "q = root_dir @ p" "below (Dir entries) p (File content)"
        "spec_supported_extension (last p)" "spec_has_token (last p)"
      by blast
    then have "p \<noteq> []" by (auto dest: below_nonempty)
    then have "sel (q, File content)" using p sel [of p "File content"] by simp
    moreover have "(q, File content) \<in> set rg" using p rg by blast
    ultimately show "q \<in> ?L" by force
  qed
  then show ?thesis using f by blast
qed

lemma find_iac_templates_not_dir:
  "\<not> (\<exists>entries. lookup fs root_dir = Some (Dir entries)) \<Longrightarrow>
     find_iac_templates fs root_dir = Inl FileNotFoundError"
  by (auto simp: find_iac_templates_def split: option.splits node.splits)

lemma fold_unit_within:
  assumes "suf = [] \<or> \<not> continuation (hd suf)"
  shows "snd (fold_unit ((c # cs) @ suf)) - 1 \<le> length cs
         \<and> fold_unit ((c # cs) @ suf) = fold_unit (c # cs)"
proof (cases cs)
  case Nil
  then show ?thesis using assms
    by (cases suf) (auto simp: fold_unit_def continuation_def)
next
  case (Cons d ds)
  show ?thesis
  proof (cases ds)
    case Nil
    then show ?thesis using assms Cons
      by (cases suf) (auto simp: fold_unit_def continuation_def)
  next
    case (Cons e es)
    then show ?thesis using \<open>cs = d # ds\<close>
      by (auto simp: fold_unit_def)
  qed
qed

lemma casefold_append:
  assumes "suf = [] \<or> \<not> continuation (hd suf)"
  shows "\<exists>pre'. casefold (pre @ suf) = pre' @ casefold suf"
proof (induction pre rule: length_induct)
  case (1 pre)
  show ?case
  proof (cases pre)
    case Nil
    then show ?thesis by simp
  next
    case (Cons c cs)
    let ?n = "snd (fold_unit (c # cs)) - 1"
    from fold_unit_within [OF assms, of c cs]
    have f: "fold_unit ((c # cs) @ suf) = fold_unit (c # cs)"
      and "snd (fold_unit ((c # cs) @ suf)) - 1 \<le> length cs"
      by blast+
    then have n: "?n \<le> length cs" by simp
    have "casefold (pre @ suf) = fst (fold_unit (c # cs)) # casefold (drop ?n (cs @ suf))"
      using Cons f by simp
    also have "drop ?n (cs @ suf) = drop ?n cs @ suf" using n by simp
    finally have c: "casefold (pre @ suf)
                     = fst (fold_unit (c # cs)) # casefold (drop ?n cs @ suf)" .
    have "length (drop ?n cs) < length pre" using Cons by simp
    with 1 obtain pre' where "casefold (drop ?n cs @ suf) = pre' @ casefold suf"
      by blast
    then show ?thesis using c by simp
  qed
qed

lemma casefold_plain:
  "\<forall>c \<in> set s. c \<notin> {CHR 0xE2, CHR 0xC5, CHR 0xC4} \<Longrightarrow> casefold s = lower s"
  by (induction s) (auto simp: fold_unit_def lower_def)

lemma lower_char_high:
  "c \<in> {CHR 0xE2, CHR 0xC5, CHR 0xC4, CHR 0x84, CHR 0xAA, CHR 0xBF, CHR 0xB1, CHR 0xB0}
     \<Longrightarrow> lower_char c = c"
  by (auto simp: lower_char_def)

lemma path_suffix_is_suffix: "suffix (path_suffix name) name"
  by (auto simp: path_suffix_def suffix_drop split: option.splits)

lemma template_suffix_has_token:
  assumes "lower (path_suffix name) = ''.template''"
  shows "spec_has_token name"
proof -
  let ?suf = "path_suffix name"
  have img: "lower_char ` set ?suf = set ''.template''"
    using assms by (metis lower_def set_map)
  have plain: "\<forall>c \<in> set ?suf. c \<notin> {CHR 0xE2, CHR 0xC5, CHR 0xC4}"
  proof
    fix c assume c: "c \<in> set ?suf"
    show "c \<notin> {CHR 0xE2, CHR 0xC5, CHR 0xC4}"
    proof
      assume h: "c \<in> {CHR 0xE2, CHR 0xC5, CHR 0xC4}"
      then have "lower_char c = c" using lower_char_high [of c] by blast
      then have "c \<in> set ''.template''" using c img by force
      then show False using h by auto
    qed
  qed
  have ne: "?suf \<noteq> []" using assms by (auto simp: lower_def)
  then have hd: "hd ?suf \<in> set ?suf" by simp
  have "\<not> continuation (hd ?suf)"
  proof
    assume h: "continuation (hd ?suf)"
    then have "lower_char (hd ?suf) = hd ?suf"
      using lower_char_high [of "hd ?suf"] by (auto simp: continuation_def)
    then have "hd ?suf \<in> set ''.template''" using hd img by force
    then show False using h by (auto simp: continuation_def)
  qed
  then obtain pre' where "\<And>pre. \<exists>pre'. casefold (pre @ ?suf) = pre' @ casefold ?suf"
    using casefold_append [of ?suf] by blast
  moreover obtain pre where "name = pre @ ?suf"
    using path_suffix_is_suffix [of name] by (auto simp: suffix_def)
  ultimately obtain pre' where "casefold name = pre' @ casefold ?suf" by metis
  then have "casefold name = (pre' @ ''.'') @ ''template'' @ []"
    using casefold_plain [OF plain] assms by simp
  then have "sublist ''template'' (casefold name)"
    unfolding sublist_def by blast
  then show ?thesis by (simp add: spec_has_token_def)
qed

text \<open>
  Claim C4. When the root is not an existing directory, \<open>find_iac_templates\<close> raises
  \<^verbatim>\<open>FileNotFoundError\<close>. When it is one, the call returns a list whose elements are
  exactly the paths of the regular files below the root whose lower-cased extension is
  one of the five supported ones and whose name contains one of the seven tokens,
  letter case ignored the way \<^verbatim>\<open>re.IGNORECASE\<close> ignores it in text (the Kelvin sign
  counts as \<open>k\<close>, the long s as \<open>s\<close>, the dotless and the dotted capital i as \<open>i\<close>);
  when no file qualifies the list is empty.
\<close>

theorem find_iac_templates_exact:
  "(\<not> (\<exists>entries. lookup fs root_dir = Some (Dir entries))
      \<longrightarrow> find_iac_templates fs root_dir = Inl FileNotFoundError)
   \<and> (\<forall>entries. lookup fs root_dir = Some (Dir entries) \<longrightarrow>
         (\<exists>found. find_iac_templates fs root_dir = Inr found
            \<and> set found = {root_dir @ p | p. (\<exists>content. below (Dir entries) p (File content))
                                         \<and> spec_supported_extension (last p)
                                         \<and> spec_has_token (last p)}
            \<and> ((\<forall>p content. below (Dir entries) p (File content) \<longrightarrow>
                   \<not> (spec_supported_extension (last p) \<and> spec_has_token (last p)))
                 \<longrightarrow> found = [])))"
proof (intro conjI impI allI)
  assume "\<not> (\<exists>entries. lookup fs root_dir = Some (Dir entries))"
  then show "find_iac_templates fs root_dir = Inl FileNotFoundError"
    by (rule find_iac_templates_not_dir)
next
  fix entries assume d: "lookup fs root_dir = Some (Dir entries)"
  then obtain found where f: "find_iac_templates fs root_dir = Inr found"
     "set found = {root_dir @ p | p. (\<exists>content. below (Dir entries) p (File content))
                                         \<and> spec_supported_extension (last p)
                                         \<and> spec_has_token (last p)}"
    using find_iac_templates_set by blast
  have "(\<forall>p content. below (Dir entries) p (File content) \<longrightarrow>
                   \<not> (spec_supported_extension (last p) \<and> spec_has_token (last p)))
                 \<longrightarrow> found = []"
  proof
    assume "\<forall>p content. below (Dir entries) p (File content) \<longrightarrow>
                   \<not> (spec_supported_extension (last p) \<and> spec_has_token (last p))"
    then have "set found = {}" unfolding f(2) by blast
    then show "found = []" by simp
  qed
  then show "\<exists>found. find_iac_templates fs root_dir = Inr found
            \<and> set found = {root_dir @ p | p. (\<exists>content. below (Dir entries) p (File content))
                                         \<and> spec_supported_extension (last p)
                                         \<and> spec_has_token (last p)}
            \<and> ((\<forall>p content. below (Dir entries) p (File content) \<longrightarrow>
                   \<not> (spec_supported_extension (last p) \<and> spec_has_token (last p)))
                 \<longrightarrow> found = [])"
    using f by blast
qed

theorem find_iac_templates_exact_witness:
  "lookup (Dir [(''main.tf'', File ''a''), (''readme.md'', File ''b''), (''output.json'', File ''{}''),
                (''cd'' @ [CHR 0xE2, CHR 0x84, CHR 0xAA] @ ''.json'', File ''d''),
                (''sub'', Dir [(''Stack.YAML'', File ''c'')])]) []
     = Some (Dir [(''main.tf'', File ''a''), (''readme.md'', File ''b''), (''output.json'', File ''{}''),
                  (''cd'' @ [CHR 0xE2, CHR 0x84, CHR 0xAA] @ ''.json'', File ''d''),
                  (''sub'', Dir [(''Stack.YAML'', File ''c'')])])
   \<and> (\<exists>found. find_iac_templates
                  (Dir [(''main.tf'', File ''a''), (''readme.md'', File ''b''),
                        (''output.json'', File ''{}''),
                        (''cd'' @ [CHR 0xE2, CHR 0x84, CHR 0xAA] @ ''.json'', File ''d''),
                        (''sub'', Dir [(''Stack.YAML'', File ''c'')])]) [] = Inr found
          \<and> [''sub'', ''Stack.YAML''] \<in> set found
          \<and> [''cd'' @ [CHR 0xE2, CHR 0x84, CHR 0xAA] @ ''.json''] \<in> set found
          \<and> [''output.json''] \<notin> set found)
   \<and> \<not> (\<exists>entries. lookup (Dir [(''main.tf'', File ''a'')]) [''main.tf''] = Some (Dir entries))
   \<and> find_iac_templates (Dir [(''main.tf'', File ''a'')]) [''main.tf''] = Inl FileNotFoundError"
proof -
  let ?k = "''cd'' @ [CHR 0xE2, CHR 0x84, CHR 0xAA] @ ''.json''"
  let ?es = "[(''main.tf'', File ''a''), (''readme.md'', File ''b''), (''output.json'', File ''{}''),
              (?k, File ''d''),
              (''sub'', Dir [(''Stack.YAML'', File ''c'')])]"
  have h: "lookup (Dir ?es) [] = Some (Dir ?es)" by (simp add: lookup_def)
  have b: "below (Dir ?es) [''sub'', ''Stack.YAML''] (File ''c'')" by simp
  have e: "spec_supported_extension (last [''sub'', ''Stack.YAML''])" by code_simp
  have t: "spec_has_token (last [''sub'', ''Stack.YAML''])" by code_simp
  have bk: "below (Dir ?es) [?k] (File ''d'')" by simp
  have ek: "spec_supported_extension (last [?k])" by code_simp
  have tk: "spec_has_token (last [?k])" by code_simp
  have no: "\<not> spec_has_token (last [''output.json''])" by code_simp
  from find_iac_templates_exact [of "Dir ?es" "[]"] h
  obtain found where f: "find_iac_templates (Dir ?es) [] = Inr found"
    "set found = {[] @ p | p. (\<exists>content. below (Dir ?es) p (File content))
                             \<and> spec_supported_extension (last p) \<and> spec_has_token (last p)}"
    by blast
  have "[''sub'', ''Stack.YAML''] \<in> set found"
    unfolding f(2) using b e t by blast
  moreover have "[?k] \<in> set found"
    unfolding f(2) using bk ek tk by blast
  moreover have "[''output.json''] \<notin> set found"
    unfolding f(2) using no by auto
  moreover have n: "\<not> (\<exists>entries. lookup (Dir [(''main.tf'', File ''a'')]) [''main.tf''] = Some (Dir entries))"
    by (simp add: lookup_def)
  moreover have "find_iac_templates (Dir [(''main.tf'', File ''a'')]) [''main.tf''] = Inl FileNotFoundError"
    using find_iac_templates_exact [of "Dir [(''main.tf'', File ''a'')]" "[''main.tf'']"] n by blast
  ultimately show ?thesis using h f(1) by blast
qed

text \<open>
  Claim C10. Every regular file below an existing root whose extension, lower-cased, is
  \<open>.template\<close> is selected: the name ends with its extension, so it contains the token.
\<close>

theorem template_extension_always_selected:
  "lookup fs root_dir = Some (Dir entries)
   \<and> below (Dir entries) p (File content)
   \<and> lower (path_suffix (last p)) = ''.template''
   \<longrightarrow> (\<exists>found. find_iac_templates fs root_dir = Inr found \<and> root_dir @ p \<in> set found)"
proof
  assume a: "lookup fs root_dir = Some (Dir entries)
   \<and> below (Dir entries) p (File content)
   \<and> lower (path_suffix (last p)) = ''.template''"
  then obtain found where f: "find_iac_templates fs root_dir = Inr found"
     "set found = {root_dir @ p | p. (\<exists>content. below (Dir entries) p (File content))
                                         \<and> spec_supported_extension (last p)
                                         \<and> spec_has_token (last p)}"
    using find_iac_templates_set by blast
  have "spec_supported_extension (last p)"
    using a by (simp add: spec_supported_extension_def)
  moreover have "spec_has_token (last p)"
    using a template_suffix_has_token by blast
  ultimately have "root_dir @ p \<in> set found"
    unfolding f(2) using a by blast
  then show "\<exists>found. find_iac_templates fs root_dir = Inr found \<and> root_dir @ p \<in> set found"
    using f(1) by blast
qed

theorem template_extension_always_selected_witness:
  "lookup (Dir [(''src'', Dir [(''x.TEMPLATE'', File ''a''), (''x.json'', File ''b'')])]) [''src'']
     = Some (Dir [(''x.TEMPLATE'', File ''a''), (''x.json'', File ''b'')])
   \<and> below (Dir [(''x.TEMPLATE'', File ''a''), (''x.json'', File ''b'')]) [''x.TEMPLATE''] (File ''a'')
   \<and> lower (path_suffix (last [''x.TEMPLATE''])) = ''.template''
   \<and> (\<exists>found. find_iac_templates
                  (Dir [(''src'', Dir [(''x.TEMPLATE'', File ''a''), (''x.json'', File ''b'')])])
                  [''src''] = Inr found
          \<and> [''src''] @ [''x.TEMPLATE''] \<in> set found)"
proof -
  let ?es = "[(''x.TEMPLATE'', File ''a''), (''x.json'', File ''b'')]"
  have h1: "lookup (Dir [(''src'', Dir ?es)]) [''src''] = Some (Dir ?es)"
    by (simp add: lookup_def)
  have h2: "below (Dir ?es) [''x.TEMPLATE''] (File ''a'')" by simp
  have h3: "lower (path_suffix (last [''x.TEMPLATE''])) = ''.template''" by code_simp
  from template_extension_always_selected
         [of "Dir [(''src'', Dir ?es)]" "[''src'']" ?es "[''x.TEMPLATE'']" "''a''"] h1 h2 h3
  have "\<exists>found. find_iac_templates (Dir [(''src'', Dir ?es)]) [''src''] = Inr found
          \<and> [''src''] @ [''x.TEMPLATE''] \<in> set found"
    by blast
  then show ?thesis using h1 h2 h3 by blast
qed

section \<open>Building the archive\<close>

lemma norm_acc_plain: "''..'' \<notin> set p \<Longrightarrow> norm_acc acc p = rev acc @ p"
  by (induction p arbitrary: acc) auto

lemma normpath_plain: "''..'' \<notin> set p \<Longrightarrow> normpath p = p"
  by (simp add: normpath_def norm_acc_plain)

lemma zf_write_name: "zf_write w file_path arcname = Inr entry \<Longrightarrow> entry_name entry = normpath arcname"
  by (auto simp: zf_write_def split: option.splits node.splits if_splits)

lemma zip_files_names:
  "zip_files w base_dir zf files = (zf', err) \<Longrightarrow>
     \<exists>new k. zf' = zf @ new \<and> k \<le> length files
        \<and> list_all2 (\<lambda>f e. \<exists>rel. relative_to f base_dir = Inr rel \<and> entry_name e = normpath rel)
             (take k files) new
        \<and> (err = None \<longrightarrow> k = length files)"
proof (induction files arbitrary: zf)
  case Nil
  then show ?case by simp
next
  case (Cons file_path files)
  show ?case
  proof (cases "relative_to file_path base_dir")
    case (Inl e)
    then have "zf' = zf" "err = Some e" using Cons.prems by simp_all
    then show ?thesis by (intro exI [of _ "[]"] exI [of _ 0]) simp
  next
    case (Inr arcname)
    show ?thesis
    proof (cases "zf_write w file_path arcname")
      case (Inl e)
      then have "zf' = zf" "err = Some e" using Cons.prems Inr by simp_all
      then show ?thesis by (intro exI [of _ "[]"] exI [of _ 0]) simp
    next
      case entry: (Inr entry)
      have name: "entry_name entry = normpath arcname"
        using entry by (rule zf_write_name)
      have "zip_files w base_dir (zf @ [entry]) files = (zf', err)"
        using Cons.prems Inr entry by simp
      from Cons.IH [OF this] obtain new k where k: "zf' = (zf @ [entry]) @ new" "k \<le> length files"
        "list_all2 (\<lambda>f e. \<exists>rel. relative_to f base_dir = Inr rel \<and> entry_name e = normpath rel)
             (take k files) new"
        "err = None \<longrightarrow> k = length files"
        by blast
      show ?thesis
        using k Inr name by (intro exI [of _ "entry # new"] exI [of _ "Suc k"]) simp
    qed
  qed
qed

lemma relative_to_prefix: "relative_to f base_dir = Inr rel \<Longrightarrow> prefix base_dir f"
  by (auto simp: relative_to_def split: if_splits)

text \<open>
  Claim C7, as stated, fails. The test for "under the base directory" compares the
  components of the two paths and nothing else: \<open>t/../u/stack.yml\<close> begins with \<open>t\<close>, so
  with base \<open>t\<close> the call ends normally, although the file it names is \<open>u/stack.yml\<close>,
  which is not under \<open>t\<close>, and the entry is named \<open>../u/stack.yml\<close>.
\<close>

theorem create_zip_archive_accepts_dotdot:
  "create_zip_archive
      \<lparr>tree = Dir [(''t'', Dir [(''main.tf'', File ''x'')]), (''u'', Dir [(''stack.yml'', File ''y'')])],
       disk = (\<lambda>p. None), writable = (\<lambda>p. True), before_1980 = (\<lambda>p. False)\<rparr>
      [''out.zip''] [[''t'', ''..'', ''u'', ''stack.yml'']] [''t'']
     = (\<lparr>tree = Dir [(''t'', Dir [(''main.tf'', File ''x'')]), (''u'', Dir [(''stack.yml'', File ''y'')])],
         disk = (\<lambda>p. None)([''out.zip''] \<mapsto> Archive [File_entry [''..'', ''u'', ''stack.yml''] ''y'']),
         writable = (\<lambda>p. True), before_1980 = (\<lambda>p. False)\<rparr>, None)
   \<and> lookup (Dir [(''t'', Dir [(''main.tf'', File ''x'')]), (''u'', Dir [(''stack.yml'', File ''y'')])])
        [''t'', ''..'', ''u'', ''stack.yml'']
     = lookup (Dir [(''t'', Dir [(''main.tf'', File ''x'')]), (''u'', Dir [(''stack.yml'', File ''y'')])])
        [''u'', ''stack.yml'']
   \<and> lookup (Dir [(''t'', Dir [(''main.tf'', File ''x'')]), (''u'', Dir [(''stack.yml'', File ''y'')])])
        [''t'', ''stack.yml''] = None"
  by (simp add: create_zip_archive_def relative_to_def zf_write_def lookup_def normpath_def)

text \<open>
  Claim C7, amended. When \<open>create_zip_archive\<close> ends without an exception, the archive
  holds one entry per input file, in order, each named by the normalised form of the
  file's path relative to the base directory; that form is the relative path itself
  when it has no \<open>..\<close> component. When the components of some input file do not begin
  with those of the base directory the call raises. Whatever the outcome, an archive
  that was opened holds entries for a leading part of the input files only, each under
  that name.
\<close>

theorem create_zip_archive_names:
  "create_zip_archive w output_path files base_dir = (w', err) \<longrightarrow>
     (err = None \<longrightarrow>
        (\<exists>zf. disk w' output_path = Some (Archive zf)
            \<and> list_all2 (\<lambda>f e. \<exists>rel. relative_to f base_dir = Inr rel \<and> entry_name e = normpath rel)
                 files zf))
   \<and> ((\<exists>f \<in> set files. \<not> prefix base_dir f) \<longrightarrow> err \<noteq> None)
   \<and> (writable w output_path \<longrightarrow>
        (\<exists>zf k. disk w' output_path = Some (Archive zf) \<and> k \<le> length files
            \<and> list_all2 (\<lambda>f e. \<exists>rel. relative_to f base_dir = Inr rel \<and> entry_name e = normpath rel)
                 (take k files) zf))
   \<and> (\<forall>rel. ''..'' \<notin> set rel \<longrightarrow> normpath rel = rel)"
proof
  assume c: "create_zip_archive w output_path files base_dir = (w', err)"
  let ?named = "\<lambda>f e. \<exists>rel. relative_to f base_dir = Inr rel \<and> entry_name e = normpath rel"
  have 4: "\<forall>rel. ''..'' \<notin> set rel \<longrightarrow> normpath rel = rel"
    by (simp add: normpath_plain)
  show "(err = None \<longrightarrow>
        (\<exists>zf. disk w' output_path = Some (Archive zf) \<and> list_all2 ?named files zf))
   \<and> ((\<exists>f \<in> set files. \<not> prefix base_dir f) \<longrightarrow> err \<noteq> None)
   \<and> (writable w output_path \<longrightarrow>
        (\<exists>zf k. disk w' output_path = Some (Archive zf) \<and> k \<le> length files
            \<and> list_all2 ?named (take k files) zf))
   \<and> (\<forall>rel. ''..'' \<notin> set rel \<longrightarrow> normpath rel = rel)"
  proof (cases "writable w output_path")
    case False
    then have "err = Some OSError" using c by (simp add: create_zip_archive_def)
    then show ?thesis using False 4 by simp
  next
    case True
    obtain zf e where z: "zip_files w base_dir [] files = (zf, e)"
      by (cases "zip_files w base_dir [] files")
    then have w': "disk w' output_path = Some (Archive zf)" and e: "err = e"
      using c True by (auto simp: create_zip_archive_def)
    from zip_files_names [OF z] obtain k where k: "k \<le> length files"
      "list_all2 ?named (take k files) zf" "e = None \<longrightarrow> k = length files"
      by auto
    have 1: "err = None \<longrightarrow>
        (\<exists>zf. disk w' output_path = Some (Archive zf) \<and> list_all2 ?named files zf)"
      using w' e k by auto
    have 2: "(\<exists>f \<in> set files. \<not> prefix base_dir f) \<longrightarrow> err \<noteq> None"
    proof (intro impI notI)
      assume o: "\<exists>f \<in> set files. \<not> prefix base_dir f" and "err = None"
      then have all: "list_all2 ?named files zf" using e k by simp
      from o obtain f where f: "f \<in> set files" "\<not> prefix base_dir f" by blast
      then obtain i where i: "i < length files" "files ! i = f"
        by (auto simp: in_set_conv_nth)
      have "?named (files ! i) (zf ! i)"
        using all i(1) by (auto simp: list_all2_conv_all_nth)
      then obtain rel where "relative_to f base_dir = Inr rel" using i(2) by auto
      then show False using f(2) relative_to_prefix by blast
    qed
    have 3: "\<exists>zf k. disk w' output_path = Some (Archive zf) \<and> k \<le> length files
            \<and> list_all2 ?named (take k files) zf"
      using w' k by blast
    show ?thesis using 1 2 3 4 by blast
  qed
qed

theorem create_zip_archive_names_witness:
  "create_zip_archive
      \<lparr>tree = Dir [(''t'', Dir [(''main.tf'', File ''x''), (''sub'', Dir [])]),
                   (''u'', Dir [(''stack.yml'', File ''y'')])],
       disk = (\<lambda>p. None), writable = (\<lambda>p. True), before_1980 = (\<lambda>p. False)\<rparr>
      [''out.zip''] [[''t'', ''main.tf''], [''u'', ''stack.yml'']] [''t'']
     = (\<lparr>tree = Dir [(''t'', Dir [(''main.tf'', File ''x''), (''sub'', Dir [])]),
                     (''u'', Dir [(''stack.yml'', File ''y'')])],
         disk = (\<lambda>p. None)([''out.zip''] \<mapsto> Archive [File_entry [''main.tf''] ''x'']),
         writable = (\<lambda>p. True), before_1980 = (\<lambda>p. False)\<rparr>, Some ValueError)
   \<and> (\<exists>f \<in> set [[''t'', ''main.tf''], [''u'', ''stack.yml'']]. \<not> prefix [''t''] f)
   \<and> Some ValueError \<noteq> (None :: py_error option)
   \<and> create_zip_archive
      \<lparr>tree = Dir [(''t'', Dir [(''main.tf'', File ''x''), (''sub'', Dir [])]),
                   (''u'', Dir [(''stack.yml'', File ''y'')])],
       disk = (\<lambda>p. None), writable = (\<lambda>p. True), before_1980 = (\<lambda>p. False)\<rparr>
      [''out.zip''] [[''t'', ''main.tf''], [''t'', ''sub'', ''..'', ''main.tf'']] [''t'']
     = (\<lparr>tree = Dir [(''t'', Dir [(''main.tf'', File ''x''), (''sub'', Dir [])]),
                     (''u'', Dir [(''stack.yml'', File ''y'')])],
         disk = (\<lambda>p. None)([''out.zip''] \<mapsto>
                  Archive [File_entry [''main.tf''] ''x'', File_entry [''main.tf''] ''x'']),
         writable = (\<lambda>p. True), before_1980 = (\<lambda>p. False)\<rparr>, None)
   \<and> (\<exists>zf. ((\<lambda>p. None)([''out.zip''] \<mapsto>
                  Archive [File_entry [''main.tf''] ''x'', File_entry [''main.tf''] ''x'']))
               [''out.zip''] = Some (Archive zf)
          \<and> list_all2 (\<lambda>f e. \<exists>rel. relative_to f [''t''] = Inr rel \<and> entry_name e = normpath rel)
               [[''t'', ''main.tf''], [''t'', ''sub'', ''..'', ''main.tf'']] zf)"
proof -
  let ?t = "Dir [(''t'', Dir [(''main.tf'', File ''x''), (''sub'', Dir [])]),
                 (''u'', Dir [(''stack.yml'', File ''y'')])]"
  let ?w = "\<lparr>tree = ?t, disk = (\<lambda>p. None), writable = (\<lambda>p. True), before_1980 = (\<lambda>p. False)\<rparr>"
  let ?w1 = "\<lparr>tree = ?t, disk = (\<lambda>p. None)([''out.zip''] \<mapsto> Archive [File_entry [''main.tf''] ''x'']),
         writable = (\<lambda>p. True), before_1980 = (\<lambda>p. False)\<rparr>"
  let ?w2 = "\<lparr>tree = ?t,
         disk = (\<lambda>p. None)([''out.zip''] \<mapsto>
                  Archive [File_entry [''main.tf''] ''x'', File_entry [''main.tf''] ''x'']),
         writable = (\<lambda>p. True), before_1980 = (\<lambda>p. False)\<rparr>"
  have c: "create_zip_archive ?w [''out.zip''] [[''t'', ''main.tf''], [''u'', ''stack.yml'']] [''t'']
           = (?w1, Some ValueError)"
    by (simp add: create_zip_archive_def relative_to_def zf_write_def lookup_def normpath_def)
  have o: "\<exists>f \<in> set [[''t'', ''main.tf''], [''u'', ''stack.yml'']]. \<not> prefix [''t''] f"
    by simp
  from create_zip_archive_names
         [of ?w "[''out.zip'']" "[[''t'', ''main.tf''], [''u'', ''stack.yml'']]" "[''t'']" ?w1 "Some ValueError"]
       c o
  have r1: "Some ValueError \<noteq> (None :: py_error option)" by blast
  have d: "create_zip_archive ?w [''out.zip'']
             [[''t'', ''main.tf''], [''t'', ''sub'', ''..'', ''main.tf'']] [''t''] = (?w2, None)"
    by (simp add: create_zip_archive_def relative_to_def zf_write_def lookup_def normpath_def)
  from create_zip_archive_names
         [of ?w "[''out.zip'']" "[[''t'', ''main.tf''], [''t'', ''sub'', ''..'', ''main.tf'']]" "[''t'']" ?w2 None] d
  have "\<exists>zf. disk ?w2 [''out.zip''] = Some (Archive zf)
          \<and> list_all2 (\<lambda>f e. \<exists>rel. relative_to f [''t''] = Inr rel \<and> entry_name e = normpath rel)
               [[''t'', ''main.tf''], [''t'', ''sub'', ''..'', ''main.tf'']] zf"
    by blast
  then have r2: "\<exists>zf. ((\<lambda>p. None)([''out.zip''] \<mapsto>
                  Archive [File_entry [''main.tf''] ''x'', File_entry [''main.tf''] ''x'']))
               [''out.zip''] = Some (Archive zf)
          \<and> list_all2 (\<lambda>f e. \<exists>rel. relative_to f [''t''] = Inr rel \<and> entry_name e = normpath rel)
               [[''t'', ''main.tf''], [''t'', ''sub'', ''..'', ''main.tf'']] zf"
    by simp
  show ?thesis using c o r1 d r2 by blast
qed

section \<open>The polling loop\<close>

lemma poll_loop_timeout:
  "\<not> now s - start_time < of_int timeout \<Longrightarrow>
     poll_loop src scan_uuid interval timeout start_time s = Some (Inl (TimeoutError timeout), s)"
  by (subst poll_loop.simps) simp

lemma poll_loop_terminal:
  assumes "now s - start_time < of_int timeout" "answers_terminal (src scan_uuid (fetched s))"
  shows "poll_loop src scan_uuid interval timeout start_time s
           = Some (snd (src scan_uuid (fetched s)), snd (session_get src scan_uuid start_time s))"
proof -
  obtain d kvs where r: "src scan_uuid (fetched s) = (d, Inr (JObj kvs))"
      "map_of kvs ''status'' = Some (JStr ''FINISHED'')"
    using assms(2) by (cases "src scan_uuid (fetched s)")
      (auto simp: answers_terminal_def split: sum.splits json.splits)
  show ?thesis
    by (subst poll_loop.simps) (simp add: assms(1) r session_get_def)
qed

lemma poll_loop_non_terminal:
  assumes "now s - start_time < of_int timeout" "answers_non_terminal (src scan_uuid (fetched s))"
  shows "poll_loop src scan_uuid interval timeout start_time s
           = (if interval < 0
              then Some (Inl ValueError, snd (session_get src scan_uuid start_time s))
              else poll_loop src scan_uuid interval timeout start_time
                     ((snd (session_get src scan_uuid start_time s))
                        \<lparr>now := now s + fst (src scan_uuid (fetched s)) + of_int interval\<rparr>))"
proof -
  obtain d kvs where r: "src scan_uuid (fetched s) = (d, Inr (JObj kvs))"
      "map_of kvs ''status'' \<noteq> Some (JStr ''FINISHED'')"
    using assms(2) by (cases "src scan_uuid (fetched s)")
      (auto simp: answers_non_terminal_def split: sum.splits json.splits)
  have st: "(case map_of kvs ''status'' of None \<Rightarrow> JStr ''UNKNOWN'' | Some v \<Rightarrow> v) \<noteq> JStr ''FINISHED''"
    using r(2) by (cases "map_of kvs ''status''") simp_all
  show ?thesis
    by (subst poll_loop.simps) (simp add: assms(1) r(1) st session_get_def py_sleep_def)
qed

lemma session_get_fields:
  "fetched (snd (session_get src scan_uuid start_time s)) = Suc (fetched s)"
  "issued (snd (session_get src scan_uuid start_time s)) = issued s @ [now s - start_time]"
  "now (snd (session_get src scan_uuid start_time s)) = now s + fst (src scan_uuid (fetched s))"
  by (simp_all add: session_get_def split: prod.splits)

lemma poll_loop_finishes:
  assumes "\<forall>j<m. answers_non_terminal (src scan_uuid (fetched s + j))"
    and "answers_terminal (src scan_uuid (fetched s + m))"
    and "\<forall>j\<le>m. now s - start_time + elapsed_after src scan_uuid interval (fetched s) j < of_int timeout"
    and "0 < m \<longrightarrow> 0 \<le> interval"
  shows "\<exists>s'. poll_loop src scan_uuid interval timeout start_time s
                = Some (snd (src scan_uuid (fetched s + m)), s')
             \<and> fetched s' = fetched s + m + 1
             \<and> length (issued s') = length (issued s) + m + 1"
  using assms
proof (induction m arbitrary: s)
  case 0
  then have "now s - start_time < of_int timeout" by simp
  then show ?case using 0 poll_loop_terminal [of s start_time timeout src scan_uuid interval]
    by (simp add: session_get_fields)
next
  case (Suc m)
  let ?s1 = "snd (session_get src scan_uuid start_time s)"
  let ?s2 = "?s1\<lparr>now := now s + fst (src scan_uuid (fetched s)) + of_int interval\<rparr>"
  have t: "now s - start_time < of_int timeout" using Suc.prems(3) [rule_format, of 0] by simp
  have nt: "answers_non_terminal (src scan_uuid (fetched s))" using Suc.prems(1) [rule_format, of 0] by simp
  have i: "0 \<le> interval" using Suc.prems(4) by simp
  have step: "poll_loop src scan_uuid interval timeout start_time s
              = poll_loop src scan_uuid interval timeout start_time ?s2"
    using poll_loop_non_terminal [of s start_time timeout src scan_uuid interval] t nt i by simp
  have f2: "fetched ?s2 = Suc (fetched s)" by (simp add: session_get_fields)
  have a1: "\<forall>j<m. answers_non_terminal (src scan_uuid (fetched ?s2 + j))"
    using Suc.prems(1) f2 by (metis Suc_less_eq add_Suc_shift)
  have a2: "answers_terminal (src scan_uuid (fetched ?s2 + m))"
    using Suc.prems(2) f2 by simp
  have a3: "\<forall>j\<le>m. now ?s2 - start_time + elapsed_after src scan_uuid interval (fetched ?s2) j < of_int timeout"
  proof (intro allI impI)
    fix j assume "j \<le> m"
    then have "now s - start_time + elapsed_after src scan_uuid interval (fetched s) (Suc j) < of_int timeout"
      using Suc.prems(3) [rule_format, of "Suc j"] by simp
    then show "now ?s2 - start_time + elapsed_after src scan_uuid interval (fetched ?s2) j < of_int timeout"
      by (simp add: session_get_fields algebra_simps)
  qed
  have a4: "0 < m \<longrightarrow> 0 \<le> interval" using i by simp
  from Suc.IH [OF a1 a2 a3 a4] obtain s' where
    "poll_loop src scan_uuid interval timeout start_time ?s2
       = Some (snd (src scan_uuid (fetched ?s2 + m)), s')"
    "fetched s' = fetched ?s2 + m + 1" "length (issued s') = length (issued ?s2) + m + 1"
    by blast
  then show ?case using step by (simp add: session_get_fields)
qed

lemma ceiling_step:
  fixes x y :: real
  assumes "0 < x" "y \<le> x - 1"
  shows "nat \<lceil>y\<rceil> < nat \<lceil>x\<rceil>"
proof -
  have "\<lceil>y\<rceil> \<le> \<lceil>x - 1\<rceil>" using assms(2) by (rule ceiling_mono)
  then have "\<lceil>y\<rceil> \<le> \<lceil>x\<rceil> - 1" by simp
  moreover have "0 < \<lceil>x\<rceil>" using assms(1) by simp
  ultimately show ?thesis by linarith
qed

lemma poll_loop_times_out:
  assumes "\<forall>k. answers_non_terminal (src scan_uuid k)"
    and "\<forall>k. 0 \<le> fst (src scan_uuid k)"
    and "0 < interval"
  shows "\<exists>s' new. poll_loop src scan_uuid interval timeout start_time s
                = Some (Inl (TimeoutError timeout), s')
             \<and> of_int timeout \<le> now s' - start_time
             \<and> issued s' = issued s @ new
             \<and> fetched s' = fetched s + length new
             \<and> (\<forall>t \<in> set new. t < of_int timeout)"
proof (induction "nat \<lceil>of_int timeout - (now s - start_time)\<rceil>" arbitrary: s rule: less_induct)
  case less
  show ?case
  proof (cases "now s - start_time < of_int timeout")
    case False
    then show ?thesis using poll_loop_timeout [of s start_time timeout src scan_uuid interval]
      by simp
  next
    case True
    let ?s1 = "snd (session_get src scan_uuid start_time s)"
    let ?s2 = "?s1\<lparr>now := now s + fst (src scan_uuid (fetched s)) + of_int interval\<rparr>"
    have step: "poll_loop src scan_uuid interval timeout start_time s
              = poll_loop src scan_uuid interval timeout start_time ?s2"
      using poll_loop_non_terminal [of s start_time timeout src scan_uuid interval] True assms(1,3)
      by simp
    have "1 \<le> fst (src scan_uuid (fetched s)) + real_of_int interval"
      using assms(2) [rule_format, of "fetched s"] assms(3) by (simp add: add_increasing)
    then have "of_int timeout - (now ?s2 - start_time) \<le> of_int timeout - (now s - start_time) - 1"
      by simp
    moreover have "0 < of_int timeout - (now s - start_time)" using True by simp
    ultimately have "nat \<lceil>of_int timeout - (now ?s2 - start_time)\<rceil>
                   < nat \<lceil>of_int timeout - (now s - start_time)\<rceil>"
      by (rule ceiling_step [rotated])
    from less [OF this] obtain s' new where r:
      "poll_loop src scan_uuid interval timeout start_time ?s2 = Some (Inl (TimeoutError timeout), s')"
      "of_int timeout \<le> now s' - start_time"
      "issued s' = issued ?s2 @ new" "fetched s' = fetched ?s2 + length new"
      "\<forall>t \<in> set new. t < of_int timeout"
      by blast
    show ?thesis
      apply (intro exI [of _ s'] exI [of _ "(now s - start_time) # new"])
      using r step True by (simp add: session_get_fields)
  qed
qed

text \<open>
  Claim C2. Let the source answer a status other than \<open>FINISHED\<close> (or none) to the first
  \<open>n\<close> requests and \<open>FINISHED\<close> to the next, and let the time of every one of these
  rounds stay within the timeout. Then \<open>poll_scan_results\<close> returns the body of request
  number \<open>n\<close> after exactly \<open>n + 1\<close> requests. Any body whose status is not \<open>FINISHED\<close>,
  missing or unknown ones included, counts as not finished.
\<close>

theorem poll_scan_results_finishes:
  "((\<forall>k<n. answers_non_terminal (src scan_uuid k))
    \<and> answers_terminal (src scan_uuid n)
    \<and> (\<forall>k\<le>n. elapsed_after src scan_uuid interval 0 k < of_int timeout)
    \<and> (0 < n \<longrightarrow> 0 \<le> interval)
    \<longrightarrow> (\<exists>s'. poll_scan_results src scan_uuid interval timeout \<lparr>now = t0, fetched = 0, issued = []\<rparr>
                 = Some (snd (src scan_uuid n), s')
              \<and> fetched s' = n + 1 \<and> length (issued s') = n + 1))
   \<and> (\<forall>d kvs. map_of kvs ''status'' \<noteq> Some (JStr ''FINISHED'')
          \<longrightarrow> answers_non_terminal (d, Inr (JObj kvs)))"
proof (intro conjI impI allI)
  let ?s = "\<lparr>now = t0, fetched = 0, issued = []\<rparr>"
  assume a: "(\<forall>k<n. answers_non_terminal (src scan_uuid k))
    \<and> answers_terminal (src scan_uuid n)
    \<and> (\<forall>k\<le>n. elapsed_after src scan_uuid interval 0 k < of_int timeout)
    \<and> (0 < n \<longrightarrow> 0 \<le> interval)"
  have "\<exists>s'. poll_loop src scan_uuid interval timeout t0 ?s
                = Some (snd (src scan_uuid (fetched ?s + n)), s')
             \<and> fetched s' = fetched ?s + n + 1
             \<and> length (issued s') = length (issued ?s) + n + 1"
    by (rule poll_loop_finishes) (use a in simp_all)
  then show "\<exists>s'. poll_scan_results src scan_uuid interval timeout ?s
                 = Some (snd (src scan_uuid n), s')
              \<and> fetched s' = n + 1 \<and> length (issued s') = n + 1"
    by (simp add: poll_scan_results_def)
next
  fix d :: real and kvs assume "map_of kvs ''status'' \<noteq> Some (JStr ''FINISHED'')"
  then show "answers_non_terminal (d, Inr (JObj kvs))"
    by (simp add: answers_non_terminal_def)
qed

theorem poll_scan_results_finishes_witness:
  "answers_non_terminal
       ((\<lambda>(u :: string) (k :: nat). (1 :: real, Inr (JObj (if k < 2 then [(''progress'', JNum 50)]
                               else [(''status'', JStr ''FINISHED''), (''result'', JArr [])]))))
          ''uuid-1'' 0)
   \<and> answers_non_terminal
       ((\<lambda>(u :: string) (k :: nat). (1 :: real, Inr (JObj (if k < 2 then [(''progress'', JNum 50)]
                               else [(''status'', JStr ''FINISHED''), (''result'', JArr [])]))))
          ''uuid-1'' 1)
   \<and> answers_terminal
       ((\<lambda>(u :: string) (k :: nat). (1 :: real, Inr (JObj (if k < 2 then [(''progress'', JNum 50)]
                               else [(''status'', JStr ''FINISHED''), (''result'', JArr [])]))))
          ''uuid-1'' 2)
   \<and> elapsed_after
        (\<lambda>(u :: string) (k :: nat). (1 :: real, Inr (JObj (if k < 2 then [(''progress'', JNum 50)]
                               else [(''status'', JStr ''FINISHED''), (''result'', JArr [])]))))
        ''uuid-1'' 5 0 2 = 12
   \<and> (12 :: real) < of_int 60
   \<and> (\<exists>s'. poll_scan_results
        (\<lambda>(u :: string) (k :: nat). (1 :: real, Inr (JObj (if k < 2 then [(''progress'', JNum 50)]
                               else [(''status'', JStr ''FINISHED''), (''result'', JArr [])]))))
        ''uuid-1'' 5 60 \<lparr>now = 1000, fetched = 0, issued = []\<rparr>
          = Some (Inr (JObj [(''status'', JStr ''FINISHED''), (''result'', JArr [])]), s')
        \<and> fetched s' = 3 \<and> length (issued s') = 3)"
proof -
  let ?src = "\<lambda>(u :: string) (k :: nat).
     (1 :: real, Inr (JObj (if k < 2 then [(''progress'', JNum 50)]
                           else [(''status'', JStr ''FINISHED''), (''result'', JArr [])]))
                 :: py_error + json)"
  have h1: "\<forall>k<2. answers_non_terminal (?src ''uuid-1'' k)"
    by (simp add: answers_non_terminal_def)
  have h2: "answers_terminal (?src ''uuid-1'' 2)"
    by (simp add: answers_terminal_def)
  have h3: "\<forall>k\<le>2. elapsed_after ?src ''uuid-1'' 5 0 k < of_int 60"
  proof (intro allI impI)
    fix k :: nat assume "k \<le> 2"
    then have "k = 0 \<or> k = Suc 0 \<or> k = Suc (Suc 0)" by arith
    then show "elapsed_after ?src ''uuid-1'' 5 0 k < of_int 60" by auto
  qed
  have h4: "0 < (2 :: nat) \<longrightarrow> 0 \<le> (5 :: int)" by simp
  from poll_scan_results_finishes [of 2 ?src "''uuid-1''" 5 60 1000] h1 h2 h3 h4
  have "\<exists>s'. poll_scan_results ?src ''uuid-1'' 5 60 \<lparr>now = 1000, fetched = 0, issued = []\<rparr>
                 = Some (snd (?src ''uuid-1'' 2), s')
              \<and> fetched s' = 2 + 1 \<and> length (issued s') = 2 + 1"
    by blast
  moreover have "elapsed_after ?src ''uuid-1'' 5 0 2 = 12"
    by (simp add: numeral_2_eq_2)
  moreover have "answers_non_terminal (?src ''uuid-1'' 0)" "answers_non_terminal (?src ''uuid-1'' 1)"
    by (simp_all add: answers_non_terminal_def)
  ultimately show ?thesis using h2 by simp
qed

text \<open>
  Claim C3. Let the source never answer \<open>FINISHED\<close>, with a positive interval and
  requests that take no negative time. Then \<open>poll_scan_results\<close> ends with
  \<^verbatim>\<open>TimeoutError\<close> carrying the configured timeout, at a moment when the elapsed time
  has reached it, and every request it sent was sent while the elapsed time was still
  below the timeout.
\<close>

theorem poll_scan_results_times_out:
  "(\<forall>k. answers_non_terminal (src scan_uuid k))
   \<and> (\<forall>k. 0 \<le> fst (src scan_uuid k))
   \<and> 0 < interval
   \<longrightarrow> (\<exists>s'. poll_scan_results src scan_uuid interval timeout \<lparr>now = t0, fetched = 0, issued = []\<rparr>
                = Some (Inl (TimeoutError timeout), s')
             \<and> of_int timeout \<le> now s' - t0
             \<and> length (issued s') = fetched s'
             \<and> (\<forall>t \<in> set (issued s'). t < of_int timeout))"
proof
  let ?s = "\<lparr>now = t0, fetched = 0, issued = []\<rparr>"
  assume a: "(\<forall>k. answers_non_terminal (src scan_uuid k))
   \<and> (\<forall>k. 0 \<le> fst (src scan_uuid k)) \<and> 0 < interval"
  have "\<exists>s' new. poll_loop src scan_uuid interval timeout t0 ?s
                = Some (Inl (TimeoutError timeout), s')
             \<and> of_int timeout \<le> now s' - t0
             \<and> issued s' = issued ?s @ new
             \<and> fetched s' = fetched ?s + length new
             \<and> (\<forall>t \<in> set new. t < of_int timeout)"
    by (rule poll_loop_times_out) (use a in simp_all)
  then show "\<exists>s'. poll_scan_results src scan_uuid interval timeout ?s
                = Some (Inl (TimeoutError timeout), s')
             \<and> of_int timeout \<le> now s' - t0
             \<and> length (issued s') = fetched s'
             \<and> (\<forall>t \<in> set (issued s'). t < of_int timeout)"
    by (auto simp: poll_scan_results_def)
qed

theorem poll_scan_results_times_out_witness:
  "(\<forall>k. answers_non_terminal ((\<lambda>(u :: string) (k :: nat). (0 :: real, Inr (JObj [(''status'', JStr ''RUNNING'')]))) ''uuid-1'' k))
   \<and> (\<forall>k. 0 \<le> fst ((\<lambda>(u :: string) (k :: nat). (0 :: real, Inr (JObj [(''status'', JStr ''RUNNING'')]) :: py_error + json))
                      ''uuid-1'' (k :: nat)))
   \<and> 0 < (10 :: int)
   \<and> (\<exists>s'. poll_scan_results (\<lambda>(u :: string) (k :: nat). (0 :: real, Inr (JObj [(''status'', JStr ''RUNNING'')]))) ''uuid-1'' 10 25
               \<lparr>now = 1000, fetched = 0, issued = []\<rparr>
             = Some (Inl (TimeoutError 25), s')
          \<and> of_int 25 \<le> now s' - 1000
          \<and> length (issued s') = fetched s'
          \<and> (\<forall>t \<in> set (issued s'). t < of_int 25))"
proof -
  let ?src = "\<lambda>(u :: string) (k :: nat).
     (0 :: real, Inr (JObj [(''status'', JStr ''RUNNING'')]) :: py_error + json)"
  have h1: "\<forall>k. answers_non_terminal (?src ''uuid-1'' k)"
    by (simp add: answers_non_terminal_def)
  have h2: "\<forall>k. 0 \<le> fst (?src ''uuid-1'' k)" by simp
  have h3: "0 < (10 :: int)" by simp
  from poll_scan_results_times_out [of ?src "''uuid-1''" 10 25 1000] h1 h2 h3
  have "\<exists>s'. poll_scan_results ?src ''uuid-1'' 10 25 \<lparr>now = 1000, fetched = 0, issued = []\<rparr>
                = Some (Inl (TimeoutError 25), s')
             \<and> of_int 25 \<le> now s' - 1000
             \<and> length (issued s') = fetched s'
             \<and> (\<forall>t \<in> set (issued s'). t < of_int 25)"
    by blast
  then show ?thesis using h1 h3 by simp
qed

text \<open>
  Claim C8, as stated, fails: with an interval of zero and a source that answers
  \<open>FINISHED\<close> at once, the call returns the payload.
\<close>

theorem poll_scan_results_accepts_zero_interval:
  "poll_scan_results (\<lambda>(u :: string) (k :: nat). (0 :: real, Inr (JObj [(''status'', JStr ''FINISHED'')]))) ''uuid-1'' 0 10
     \<lparr>now = 1000, fetched = 0, issued = []\<rparr>
   = Some (Inr (JObj [(''status'', JStr ''FINISHED'')]), \<lparr>now = 1000, fetched = 1, issued = [0]\<rparr>)"
  unfolding poll_scan_results_def
  by (subst poll_loop.simps) (simp add: session_get_def)

text \<open>
  Claim C8, amended. \<open>poll_scan_results\<close> does not check the interval. With an interval
  of zero or less and a positive timeout: a first answer \<open>FINISHED\<close> is returned after
  one request; after a first answer that is not \<open>FINISHED\<close>, a negative interval makes
  the sleep raise \<^verbatim>\<open>ValueError\<close>, and a zero interval sends the loop on without waiting.
\<close>

theorem poll_scan_results_interval_unchecked:
  "interval \<le> 0 \<and> 0 < timeout \<longrightarrow>
     (answers_terminal (src scan_uuid 0) \<longrightarrow>
        (\<exists>s'. poll_scan_results src scan_uuid interval timeout \<lparr>now = t0, fetched = 0, issued = []\<rparr>
                 = Some (snd (src scan_uuid 0), s') \<and> fetched s' = 1))
   \<and> (answers_non_terminal (src scan_uuid 0) \<and> interval < 0 \<longrightarrow>
        (\<exists>s'. poll_scan_results src scan_uuid interval timeout \<lparr>now = t0, fetched = 0, issued = []\<rparr>
                 = Some (Inl ValueError, s') \<and> fetched s' = 1))
   \<and> (answers_non_terminal (src scan_uuid 0) \<and> interval = 0 \<longrightarrow>
        poll_scan_results src scan_uuid interval timeout \<lparr>now = t0, fetched = 0, issued = []\<rparr>
          = poll_loop src scan_uuid interval timeout t0
              \<lparr>now = t0 + fst (src scan_uuid 0), fetched = 1, issued = [0]\<rparr>)"
proof (intro impI conjI)
  let ?s = "\<lparr>now = t0, fetched = 0, issued = []\<rparr>"
  assume a: "interval \<le> 0 \<and> 0 < timeout"
  then have t: "now ?s - t0 < of_int timeout" by simp
  {
    assume "answers_terminal (src scan_uuid 0)"
    then show "\<exists>s'. poll_scan_results src scan_uuid interval timeout ?s
                 = Some (snd (src scan_uuid 0), s') \<and> fetched s' = 1"
      using poll_loop_terminal [of ?s t0 timeout src scan_uuid interval] t
      by (simp add: poll_scan_results_def session_get_fields)
  next
    assume "answers_non_terminal (src scan_uuid 0) \<and> interval < 0"
    then show "\<exists>s'. poll_scan_results src scan_uuid interval timeout ?s
                 = Some (Inl ValueError, s') \<and> fetched s' = 1"
      using poll_loop_non_terminal [of ?s t0 timeout src scan_uuid interval] t
      by (simp add: poll_scan_results_def session_get_fields)
  next
    assume "answers_non_terminal (src scan_uuid 0) \<and> interval = 0"
    then show "poll_scan_results src scan_uuid interval timeout ?s
          = poll_loop src scan_uuid interval timeout t0
              \<lparr>now = t0 + fst (src scan_uuid 0), fetched = 1, issued = [0]\<rparr>"
      using poll_loop_non_terminal [of ?s t0 timeout src scan_uuid interval] t
      by (simp add: poll_scan_results_def session_get_def split: prod.splits)
  }
qed

theorem poll_scan_results_interval_unchecked_witness:
  "(-1 :: int) \<le> 0 \<and> (0 :: int) < 10
   \<and> answers_non_terminal ((\<lambda>(u :: string) (k :: nat). (2 :: real, Inr (JObj [(''status'', JStr ''RUNNING'')]))) ''uuid-1'' 0)
   \<and> (\<exists>s'. poll_scan_results (\<lambda>(u :: string) (k :: nat). (2 :: real, Inr (JObj [(''status'', JStr ''RUNNING'')]))) ''uuid-1'' (-1) 10
               \<lparr>now = 1000, fetched = 0, issued = []\<rparr>
             = Some (Inl ValueError, s') \<and> fetched s' = 1)
   \<and> answers_terminal ((\<lambda>(u :: string) (k :: nat). (2 :: real, Inr (JObj [(''status'', JStr ''FINISHED'')]))) ''uuid-1'' 0)
   \<and> (\<exists>s'. poll_scan_results (\<lambda>(u :: string) (k :: nat). (2 :: real, Inr (JObj [(''status'', JStr ''FINISHED'')]))) ''uuid-1'' (-1) 10
               \<lparr>now = 1000, fetched = 0, issued = []\<rparr>
             = Some (Inr (JObj [(''status'', JStr ''FINISHED'')]), s') \<and> fetched s' = 1)"
proof -
  let ?run = "\<lambda>(u :: string) (k :: nat).
     (2 :: real, Inr (JObj [(''status'', JStr ''RUNNING'')]) :: py_error + json)"
  let ?fin = "\<lambda>(u :: string) (k :: nat).
     (2 :: real, Inr (JObj [(''status'', JStr ''FINISHED'')]) :: py_error + json)"
  have h0: "(-1 :: int) \<le> 0 \<and> (0 :: int) < 10" by simp
  have h1: "answers_non_terminal (?run ''uuid-1'' 0)" by (simp add: answers_non_terminal_def)
  have h2: "answers_terminal (?fin ''uuid-1'' 0)" by (simp add: answers_terminal_def)
  have h3: "(-1 :: int) < 0" by simp
  from poll_scan_results_interval_unchecked [of "-1" 10 ?run "''uuid-1''" 1000] h0 h1 h3
  have r1: "\<exists>s'. poll_scan_results ?run ''uuid-1'' (-1) 10 \<lparr>now = 1000, fetched = 0, issued = []\<rparr>
             = Some (Inl ValueError, s') \<and> fetched s' = 1"
    by blast
  from poll_scan_results_interval_unchecked [of "-1" 10 ?fin "''uuid-1''" 1000] h0 h2
  have r2: "\<exists>s'. poll_scan_results ?fin ''uuid-1'' (-1) 10 \<lparr>now = 1000, fetched = 0, issued = []\<rparr>
             = Some (snd (?fin ''uuid-1'' 0), s') \<and> fetched s' = 1"
    by blast
  show ?thesis using h0 h1 h2 r1 r2 by simp
qed

section \<open>Cleaning up after the workflow\<close>





end
